theory Spec2Isabelle
  imports Complex_Main "HOL-Library.AList"
begin

section \<open>JavaScript values\<close>

text \<open>
  A JavaScript string is a sequence of UTF-16 code units; a code unit is modelled as an
  integer (the code units are the integers from 0 to 65535). \<open>js\<close> turns a literal
  of the source into such a sequence.
\<close>

type_synonym jschar = int
type_synonym jsstring = "int list"

definition js :: "string \<Rightarrow> jsstring" where
  "js s = map of_char s"

text \<open>
  Numbers: a finite number is modelled by the rational it denotes (the rounding of a
  decimal literal to a double is not modelled; no function of this development computes
  with a score, the code only asks for its type), next to the three non-finite numbers.
\<close>

datatype jsnumber = Finite rat | NaN | PosInfinity | NegInfinity

text \<open>
  The values the validator can be given: \<open>undefined\<close> and the values \<open>JSON.parse\<close>
  produces. An object is the list of its own properties; a property is read with
  \<open>map_of\<close>. Objects with accessors and proxies are outside this type.
\<close>

datatype jsval =
    JUndefined
  | JNull
  | JBool bool
  | JNum jsnumber
  | JStr jsstring
  | JArr "jsval list"
  | JObj "(jsstring \<times> jsval) list"

datatype jstype = TUndefined | TObject | TBoolean | TNumber | TString

datatype js_error = TypeError | SyntaxError

text \<open>The \<open>typeof\<close> operator: \<open>null\<close> and arrays are of type object.\<close>

fun typeof :: "jsval \<Rightarrow> jstype" where
  "typeof JUndefined = TUndefined"
| "typeof JNull = TObject"
| "typeof (JBool b) = TBoolean"
| "typeof (JNum n) = TNumber"
| "typeof (JStr s) = TString"
| "typeof (JArr xs) = TObject"
| "typeof (JObj kvs) = TObject"

text \<open>\<open>ToBoolean\<close>, which \<open>!v\<close> negates.\<close>

fun truthy :: "jsval \<Rightarrow> bool" where
  "truthy JUndefined = False"
| "truthy JNull = False"
| "truthy (JBool b) = b"
| "truthy (JNum (Finite r)) = (r \<noteq> 0)"
| "truthy (JNum NaN) = False"
| "truthy (JNum n) = True"
| "truthy (JStr s) = (s \<noteq> [])"
| "truthy (JArr xs) = True"
| "truthy (JObj kvs) = True"

text \<open>
  Reading a property, \<open>v.name\<close> or \<open>v[name]\<close>: a TypeError on \<open>undefined\<close> and
  \<open>null\<close>, the own property of an object, and \<open>undefined\<close> where there is none. The
  names the source reads (\<open>overallScore\<close>, the five section names, \<open>score\<close>, \<open>tips\<close>,
  \<open>type\<close>, \<open>tip\<close>, \<open>explanation\<close>, \<open>resumePath\<close>, \<open>imagePath\<close>, \<open>feedback\<close>) are
  neither \<open>length\<close>, nor an index, nor a member of a prototype, so an array, a string, a
  number and a boolean have none of them.
\<close>

fun get_prop :: "jsval \<Rightarrow> jsstring \<Rightarrow> js_error + jsval" where
  "get_prop JUndefined name = Inl TypeError"
| "get_prop JNull name = Inl TypeError"
| "get_prop (JObj kvs) name = Inr (case map_of kvs name of Some v \<Rightarrow> v | None \<Rightarrow> JUndefined)"
| "get_prop v name = Inr JUndefined"

text \<open>Sequencing of computations that may throw.\<close>

definition bind_err :: "js_error + 'a \<Rightarrow> ('a \<Rightarrow> js_error + 'b) \<Rightarrow> js_error + 'b" where
  "bind_err r f = (case r of Inl e \<Rightarrow> Inl e | Inr v \<Rightarrow> f v)"

section \<open>The schema validator (json-validator.ts, validateFeedbackStructure)\<close>

definition sections :: "jsstring list" where
  "sections = [js ''ATS'', js ''toneAndStyle'', js ''content'', js ''structure'', js ''skills'']"

text \<open>
  The body of the inner loop for one tip: \<open>Inr False\<close> is the source's
  \<open>return false\<close>, \<open>Inr True\<close> lets the loop go on, \<open>Inl\<close> is a thrown error.
\<close>

definition check_tip :: "jsstring \<Rightarrow> jsval \<Rightarrow> js_error + bool" where
  "check_tip section tip =
     (if \<not> truthy tip \<or> typeof tip \<noteq> TObject then Inr False
      else bind_err (get_prop tip (js ''type'')) (\<lambda>ty.
        if ty \<notin> set [JStr (js ''good''), JStr (js ''improve'')] then Inr False
        else bind_err (get_prop tip (js ''tip'')) (\<lambda>tp.
          if typeof tp \<noteq> TString then Inr False
          else if section \<noteq> js ''ATS'' then
            bind_err (get_prop tip (js ''explanation'')) (\<lambda>ex.
              if typeof ex \<noteq> TString then Inr False else Inr True)
          else Inr True)))"

text \<open>The loop \<open>for (const tip of obj[section].tips)\<close>.\<close>

fun check_tips :: "jsstring \<Rightarrow> jsval list \<Rightarrow> js_error + bool" where
  "check_tips section [] = Inr True"
| "check_tips section (tip # tips) =
     bind_err (check_tip section tip) (\<lambda>ok.
       if ok then check_tips section tips else Inr False)"

text \<open>The body of the outer loop for one section name.\<close>

definition check_section :: "jsval \<Rightarrow> jsstring \<Rightarrow> js_error + bool" where
  "check_section obj section =
     bind_err (get_prop obj section) (\<lambda>sec.
       if \<not> truthy sec \<or> typeof sec \<noteq> TObject then Inr False
       else bind_err (get_prop sec (js ''score'')) (\<lambda>sc.
         if typeof sc \<noteq> TNumber then Inr False
         else bind_err (get_prop sec (js ''tips'')) (\<lambda>tips.
           case tips of
             JArr ts \<Rightarrow> check_tips section ts
           | _ \<Rightarrow> Inr False)))"

text \<open>The loop \<open>for (const section of sections)\<close>.\<close>

fun check_sections :: "jsval \<Rightarrow> jsstring list \<Rightarrow> js_error + bool" where
  "check_sections obj [] = Inr True"
| "check_sections obj (section # rest) =
     bind_err (check_section obj section) (\<lambda>ok.
       if ok then check_sections obj rest else Inr False)"

definition validateFeedbackStructure :: "jsval \<Rightarrow> js_error + bool" where
  "validateFeedbackStructure obj =
     (if \<not> truthy obj \<or> typeof obj \<noteq> TObject then Inr False
      else bind_err (get_prop obj (js ''overallScore'')) (\<lambda>os.
        if typeof os \<noteq> TNumber then Inr False
        else check_sections obj sections))"

section \<open>The fallback record (json-validator.ts, createFallbackFeedback)\<close>

text \<open>The parameter is \<open>None\<close> when the caller gives no argument: the default applies.\<close>

definition createFallbackFeedback :: "jsstring option \<Rightarrow> jsval" where
  "createFallbackFeedback arg =
     (let errorMessage = (case arg of None \<Rightarrow> js ''AI parsing failed'' | Some e \<Rightarrow> e);
          errorTip = JObj
            [(js ''type'', JStr (js ''improve'')),
             (js ''tip'', JStr (js ''Manual review needed'')),
             (js ''explanation'', JStr (errorMessage @
                js ''. Please try uploading your resume again or contact support if the issue persists.''))];
          basicTip = JObj
            [(js ''type'', JStr (js ''improve'')),
             (js ''tip'', JStr (js ''Upload failed - please try again''))]
      in JObj
        [(js ''overallScore'', JNum (Finite 50)),
         (js ''ATS'', JObj [(js ''score'', JNum (Finite 50)), (js ''tips'', JArr [basicTip])]),
         (js ''toneAndStyle'', JObj [(js ''score'', JNum (Finite 50)), (js ''tips'', JArr [errorTip])]),
         (js ''content'', JObj [(js ''score'', JNum (Finite 50)), (js ''tips'', JArr [errorTip])]),
         (js ''structure'', JObj [(js ''score'', JNum (Finite 50)), (js ''tips'', JArr [errorTip])]),
         (js ''skills'', JObj [(js ''score'', JNum (Finite 50)), (js ''tips'', JArr [errorTip])])])"

section \<open>Strings and regular expressions of the language\<close>

text \<open>
  The white space of \<open>String.prototype.trim\<close> and of the class \<open>\s\<close>: the WhiteSpace
  and LineTerminator code points of ECMAScript.
\<close>

definition is_space :: "jschar \<Rightarrow> bool" where
  "is_space c =
     (c = 9 \<or> c = 10 \<or> c = 11 \<or> c = 12 \<or> c = 13 \<or> c = 32 \<or> c = 160 \<or> c = 5760
      \<or> (8192 \<le> c \<and> c \<le> 8202) \<or> c = 8232 \<or> c = 8233 \<or> c = 8239 \<or> c = 8287
      \<or> c = 12288 \<or> c = 65279)"

definition trim :: "jsstring \<Rightarrow> jsstring" where
  "trim s = rev (dropWhile is_space (rev (dropWhile is_space s)))"

definition startsWith :: "jsstring \<Rightarrow> jsstring \<Rightarrow> bool" where
  "startsWith s p = (take (length p) s = p)"

text \<open>\<open>indexOf\<close> and \<open>lastIndexOf\<close> of a single code unit: \<open>-1\<close> when it does not occur.\<close>

fun indexOf :: "jsstring \<Rightarrow> jschar \<Rightarrow> int" where
  "indexOf [] c = -1"
| "indexOf (x # xs) c =
     (if x = c then 0 else (let i = indexOf xs c in if i < 0 then -1 else i + 1))"

definition lastIndexOf :: "jsstring \<Rightarrow> jschar \<Rightarrow> int" where
  "lastIndexOf s c =
     (let i = indexOf (rev s) c in if i < 0 then -1 else int (length s) - 1 - i)"

text \<open>\<open>substring\<close> with arguments between 0 and the length, as the source calls it.\<close>

definition substring_from :: "jsstring \<Rightarrow> int \<Rightarrow> jsstring" where
  "substring_from s a = drop (nat a) s"

definition substring :: "jsstring \<Rightarrow> int \<Rightarrow> int \<Rightarrow> jsstring" where
  "substring s a b = take (nat b - nat a) (drop (nat a) s)"

text \<open>
  The regular expressions of the source, as syntax trees: classes of code units, the
  empty pattern, sequence, the greedy and the lazy star, a capture group, a positive
  lookahead and the two anchors (no flag \<open>m\<close>: they match at the ends of the input only).
\<close>

text \<open>The code units the source names, and the characters they are.\<close>

abbreviation c_quote :: jschar where "c_quote \<equiv> 34"
abbreviation c_backslash :: jschar where "c_backslash \<equiv> 92"
abbreviation c_slash :: jschar where "c_slash \<equiv> 47"
abbreviation c_lbrace :: jschar where "c_lbrace \<equiv> 123"
abbreviation c_rbrace :: jschar where "c_rbrace \<equiv> 125"
abbreviation c_lbrack :: jschar where "c_lbrack \<equiv> 91"
abbreviation c_rbrack :: jschar where "c_rbrack \<equiv> 93"
abbreviation c_colon :: jschar where "c_colon \<equiv> 58"
abbreviation c_comma :: jschar where "c_comma \<equiv> 44"
abbreviation c_minus :: jschar where "c_minus \<equiv> 45"
abbreviation c_plus :: jschar where "c_plus \<equiv> 43"
abbreviation c_dot :: jschar where "c_dot \<equiv> 46"
abbreviation c_zero :: jschar where "c_zero \<equiv> 48"
abbreviation c_backtick :: jschar where "c_backtick \<equiv> 96"
abbreviation c_newline :: jschar where "c_newline \<equiv> 10"
abbreviation c_b :: jschar where "c_b \<equiv> 98"
abbreviation c_e :: jschar where "c_e \<equiv> 101"
abbreviation c_E :: jschar where "c_E \<equiv> 69"
abbreviation c_f :: jschar where "c_f \<equiv> 102"
abbreviation c_j :: jschar where "c_j \<equiv> 106"
abbreviation c_n :: jschar where "c_n \<equiv> 110"
abbreviation c_o :: jschar where "c_o \<equiv> 111"
abbreviation c_r :: jschar where "c_r \<equiv> 114"
abbreviation c_s :: jschar where "c_s \<equiv> 115"
abbreviation c_t :: jschar where "c_t \<equiv> 116"
abbreviation c_u :: jschar where "c_u \<equiv> 117"

datatype cls = COne jschar | CSet "jschar list" | CNotSet "jschar list" | CSpace | CAny

fun cls_mem :: "cls \<Rightarrow> jschar \<Rightarrow> bool" where
  "cls_mem (COne d) c = (c = d)"
| "cls_mem (CSet ds) c = (c \<in> set ds)"
| "cls_mem (CNotSet ds) c = (c \<notin> set ds)"
| "cls_mem CSpace c = is_space c"
| "cls_mem CAny c = True"

datatype rx =
    Atom cls
  | Eps
  | Seq rx rx
  | Star rx
  | StarLazy rx
  | Group nat rx
  | Lookahead rx
  | Bol
  | Eol

text \<open>
  The state of a match: the position in the input, the input from this position on, and
  the captures found so far.
\<close>

record mstate =
  endIndex :: int
  rest :: jsstring
  captures :: "nat \<rightharpoonup> jsstring"

text \<open>
  The backtracking matcher of ECMAScript, in its continuation form: \<open>m n r k s\<close> matches
  \<open>r\<close> from the state \<open>s\<close> in an input of length \<open>n\<close> and gives the state it ends in to
  the continuation \<open>k\<close>; when \<open>k\<close> fails, the next way of matching \<open>r\<close> is tried. The
  greedy star tries one more iteration first, the lazy star tries to stop first; an
  iteration that does not advance is refused (\<open>again\<close>, the continuation of an iteration
  that started at position \<open>i\<close>). \<open>close_group\<close> is the continuation of a group that
  started at position \<open>start\<close>, where the input was \<open>text\<close>: it records the capture.
\<close>

definition close_group ::
  "nat \<Rightarrow> int \<Rightarrow> jsstring \<Rightarrow> (mstate \<Rightarrow> mstate option) \<Rightarrow> mstate \<Rightarrow> mstate option" where
  "close_group i start text k s =
     k (s\<lparr>captures := (captures s)(i \<mapsto> take (nat (endIndex s - start)) text)\<rparr>)"

function (sequential) m :: "int \<Rightarrow> rx \<Rightarrow> (mstate \<Rightarrow> mstate option) \<Rightarrow> mstate \<Rightarrow> mstate option"
  and again :: "int \<Rightarrow> bool \<Rightarrow> int \<Rightarrow> rx \<Rightarrow> (mstate \<Rightarrow> mstate option) \<Rightarrow> mstate \<Rightarrow> mstate option"
where
  "m n (Atom c) k s =
     (case rest s of
        [] \<Rightarrow> None
      | x # xs \<Rightarrow> if cls_mem c x then k (s\<lparr>endIndex := endIndex s + 1, rest := xs\<rparr>) else None)"
| "m n Eps k s = k s"
| "m n (Seq a b) k s = m n a (m n b k) s"
| "m n (Star r) k s =
     (case m n r (again n True (endIndex s) r k) s of
        Some e \<Rightarrow> Some e
      | None \<Rightarrow> k s)"
| "m n (StarLazy r) k s =
     (case k s of
        Some e \<Rightarrow> Some e
      | None \<Rightarrow> m n r (again n False (endIndex s) r k) s)"
| "m n (Group i r) k s = m n r (close_group i (endIndex s) (rest s) k) s"
| "m n (Lookahead r) k s =
     (case m n r Some s of
        None \<Rightarrow> None
      | Some s' \<Rightarrow> k (s\<lparr>captures := captures s'\<rparr>))"
| "m n Bol k s = (if endIndex s = 0 then k s else None)"
| "m n Eol k s = (if rest s = [] then k s else None)"
| "again n greedy i r k s =
     (if i < endIndex s \<and> endIndex s \<le> n
      then (if greedy then m n (Star r) k s else m n (StarLazy r) k s)
      else None)"
  by pat_completeness auto
termination
  by (relation "inv_image (less_than <*lex*> less_than) (\<lambda>x. case x of
        Inl (n, r, k, s) \<Rightarrow> (size r, 2 * nat (n - endIndex s))
      | Inr (n, g, i, r, k, s) \<Rightarrow>
          if i < endIndex s \<and> endIndex s \<le> n
          then (Suc (size r), 2 * nat (n - endIndex s) + 1) else (0, 0))")
    auto

text \<open>A sequence of patterns, and \<open>r+\<close>.\<close>

fun seqs :: "rx list \<Rightarrow> rx" where
  "seqs [] = Eps"
| "seqs [r] = r"
| "seqs (r # rs) = Seq r (seqs rs)"

definition plus :: "rx \<Rightarrow> rx" where
  "plus r = Seq r (Star r)"

text \<open>
  The search of \<open>RegExp.prototype.exec\<close> in an input of length \<open>n\<close>: the match at the
  leftmost position that has one, tried from position \<open>i\<close> on, where \<open>s\<close> is the input
  from \<open>i\<close> on. The result is the position of the match and the state at its end.
\<close>

fun rx_search :: "int \<Rightarrow> rx \<Rightarrow> int \<Rightarrow> jsstring \<Rightarrow> (int \<times> mstate) option" where
  "rx_search n r i s =
     (case m n r Some \<lparr>endIndex = i, rest = s, captures = Map.empty\<rparr> of
        Some e \<Rightarrow> Some (i, e)
      | None \<Rightarrow> (case s of [] \<Rightarrow> None | c # cs \<Rightarrow> rx_search n r (i + 1) cs))"

text \<open>\<open>s.match(r)\<close> for a pattern without flag \<open>g\<close>: the matched text, element 0 of the result.\<close>

definition match0 :: "rx \<Rightarrow> jsstring \<Rightarrow> jsstring option" where
  "match0 r s =
     (case rx_search (int (length s)) r 0 s of
        None \<Rightarrow> None
      | Some (i, e) \<Rightarrow> Some (take (nat (endIndex e - i)) (drop (nat i) s)))"

text \<open>A replacement text: literal pieces and references \<open>$n\<close> to captures.\<close>

datatype rpart = RLit jsstring | RCap nat

fun substitution :: "rpart list \<Rightarrow> (nat \<rightharpoonup> jsstring) \<Rightarrow> jsstring" where
  "substitution [] caps = []"
| "substitution (RLit t # ps) caps = t @ substitution ps caps"
| "substitution (RCap n # ps) caps =
     (case caps n of Some t \<Rightarrow> t | None \<Rightarrow> []) @ substitution ps caps"

text \<open>\<open>s.replace(r, rep)\<close> for a pattern without flag \<open>g\<close>: the first match only.\<close>

definition replace_first :: "rx \<Rightarrow> rpart list \<Rightarrow> jsstring \<Rightarrow> jsstring" where
  "replace_first r rep s =
     (case rx_search (int (length s)) r 0 s of
        None \<Rightarrow> s
      | Some (i, e) \<Rightarrow> take (nat i) s @ substitution rep (captures e) @ rest e)"

text \<open>
  \<open>s.replace(r, rep)\<close> for a pattern with flag \<open>g\<close>: every match, from left to right,
  each search starting where the last match ended (one code unit further after an empty
  match). \<open>s\<close> is the input from position \<open>i\<close> on, \<open>n\<close> the length of the whole input.
\<close>

function replace_all_from :: "int \<Rightarrow> rx \<Rightarrow> rpart list \<Rightarrow> int \<Rightarrow> jsstring \<Rightarrow> jsstring" where
  "replace_all_from n r rep i s =
     (case rx_search n r i s of
        None \<Rightarrow> s
      | Some (j, e) \<Rightarrow>
          take (nat (j - i)) s @ substitution rep (captures e) @
          (if length (rest e) < length (drop (nat (j - i)) s)
           then replace_all_from n r rep (endIndex e) (rest e)
           else (case drop (nat (j - i)) s of
                   [] \<Rightarrow> []
                 | c # cs \<Rightarrow> c # replace_all_from n r rep (j + 1) cs)))"
  by pat_completeness auto
termination
proof (relation "measure (\<lambda>(n, r, rep, i, s). length s)", goal_cases)
  case 1
  show ?case by simp
next
  case (2 n r rep i s x2 j e)
  then show ?case by simp
next
  case (3 n r rep i s x2 j e c cs)
  have "length (drop (nat (j - i)) s) \<le> length s" by simp
  with 3 show ?case by simp
qed

definition replace_all :: "rx \<Rightarrow> rpart list \<Rightarrow> jsstring \<Rightarrow> jsstring" where
  "replace_all r rep s = replace_all_from (int (length s)) r rep 0 s"

section \<open>JSON.parse\<close>

text \<open>
  \<open>JSON.parse\<close> belongs to the language, not to the repository; it is modelled after
  the JSON grammar of ECMAScript: a lexical grammar (white space, the six punctuators,
  strings, numbers and the three literals) and a syntactic grammar over its tokens.
\<close>

datatype token =
    TokLBrace | TokRBrace | TokLBrack | TokRBrack | TokColon | TokComma
  | TokString jsstring | TokNumber jsnumber | TokTrue | TokFalse | TokNull

definition is_json_ws :: "jschar \<Rightarrow> bool" where
  "is_json_ws c = (c = 9 \<or> c = 10 \<or> c = 13 \<or> c = 32)"

definition is_digit :: "jschar \<Rightarrow> bool" where
  "is_digit c = (48 \<le> c \<and> c \<le> 57)"

definition hex_val :: "jschar \<Rightarrow> int option" where
  "hex_val c =
     (if 48 \<le> c \<and> c \<le> 57 then Some (c - 48)
      else if 97 \<le> c \<and> c \<le> 102 then Some (c - 87)
      else if 65 \<le> c \<and> c \<le> 70 then Some (c - 55)
      else None)"

definition hex4 :: "jschar \<Rightarrow> jschar \<Rightarrow> jschar \<Rightarrow> jschar \<Rightarrow> jschar option" where
  "hex4 a b c d =
     (case (hex_val a, hex_val b, hex_val c, hex_val d) of
        (Some w, Some x, Some y, Some z) \<Rightarrow> Some (4096 * w + 256 * x + 16 * y + z)
      | _ \<Rightarrow> None)"

text \<open>The code unit a single-character escape stands for.\<close>

definition escape_char :: "jschar \<Rightarrow> jschar option" where
  "escape_char e =
     (if e = c_quote then Some c_quote
      else if e = c_backslash then Some c_backslash
      else if e = c_slash then Some c_slash
      else if e = c_b then Some 8
      else if e = c_f then Some 12
      else if e = c_n then Some 10
      else if e = c_r then Some 13
      else if e = c_t then Some 9
      else None)"

definition cons_res :: "'a \<Rightarrow> ('a list \<times> 'b) option \<Rightarrow> ('a list \<times> 'b) option" where
  "cons_res x r = (case r of None \<Rightarrow> None | Some (xs, t) \<Rightarrow> Some (x # xs, t))"

text \<open>
  A string token, read from after its opening quote: the code units it denotes and the
  input after its closing quote. A control character and an unknown escape are errors.
\<close>

fun lex_string :: "jsstring \<Rightarrow> (jsstring \<times> jsstring) option" where
  "lex_string [] = None"
| "lex_string (c # cs) =
     (if c = c_quote then Some ([], cs)
      else if c = c_backslash then
        (case cs of
           [] \<Rightarrow> None
         | e # es \<Rightarrow>
             if e = c_u then
               (case es of
                  h1 # h2 # h3 # h4 # r \<Rightarrow>
                    (case hex4 h1 h2 h3 h4 of
                       None \<Rightarrow> None
                     | Some u \<Rightarrow> cons_res u (lex_string r))
                | _ \<Rightarrow> None)
             else
               (case escape_char e of
                  None \<Rightarrow> None
                | Some x \<Rightarrow> cons_res x (lex_string es)))
      else if c < 32 then None
      else cons_res c (lex_string cs))"

text \<open>The number a sequence of decimal digits denotes.\<close>

definition digits_val :: "jsstring \<Rightarrow> int" where
  "digits_val ds = foldl (\<lambda>a d. 10 * a + (d - 48)) 0 ds"

text \<open>
  A number token \<open>-? (0 | [1-9][0-9]*) (. [0-9]+)? ([eE] [+-]? [0-9]+)?\<close>, read in
  its three parts; each gives what it read and the input after it.
\<close>

definition lex_int :: "jsstring \<Rightarrow> (jsstring \<times> jsstring) option" where
  "lex_int s =
     (let ip = takeWhile is_digit s
      in if ip = [] \<or> (length ip > 1 \<and> hd ip = c_zero) then None
         else Some (ip, dropWhile is_digit s))"

definition lex_frac :: "jsstring \<Rightarrow> (jsstring \<times> jsstring) option" where
  "lex_frac s =
     (case s of
        [] \<Rightarrow> Some ([], s)
      | c # cs \<Rightarrow>
          if c = c_dot then
            (if takeWhile is_digit cs = [] then None
             else Some (takeWhile is_digit cs, dropWhile is_digit cs))
          else Some ([], s))"

definition lex_exp_digits :: "bool \<Rightarrow> jsstring \<Rightarrow> (int \<times> jsstring) option" where
  "lex_exp_digits neg s =
     (if takeWhile is_digit s = [] then None
      else Some ((if neg then - digits_val (takeWhile is_digit s)
                  else digits_val (takeWhile is_digit s)),
                 dropWhile is_digit s))"

definition lex_exp :: "jsstring \<Rightarrow> (int \<times> jsstring) option" where
  "lex_exp s =
     (case s of
        [] \<Rightarrow> Some (0, s)
      | c # cs \<Rightarrow>
          if c = c_e \<or> c = c_E then
            (case cs of
               [] \<Rightarrow> None
             | d # ds \<Rightarrow>
                 if d = c_minus then lex_exp_digits True ds
                 else if d = c_plus then lex_exp_digits False ds
                 else lex_exp_digits False cs)
          else Some (0, s))"

definition number_value :: "bool \<Rightarrow> jsstring \<Rightarrow> jsstring \<Rightarrow> int \<Rightarrow> rat" where
  "number_value neg ip fp e =
     (let mant = of_int (digits_val ip) + of_int (digits_val fp) / 10 ^ length fp;
          scaled = (if e < 0 then mant / 10 ^ nat (- e) else mant * 10 ^ nat e)
      in if neg then - scaled else scaled)"

definition lex_unsigned :: "bool \<Rightarrow> jsstring \<Rightarrow> (jsnumber \<times> jsstring) option" where
  "lex_unsigned neg s =
     (case lex_int s of
        None \<Rightarrow> None
      | Some (ip, s2) \<Rightarrow>
          (case lex_frac s2 of
             None \<Rightarrow> None
           | Some (fp, s3) \<Rightarrow>
               (case lex_exp s3 of
                  None \<Rightarrow> None
                | Some (e, s4) \<Rightarrow> Some (Finite (number_value neg ip fp e), s4))))"

definition lex_number :: "jsstring \<Rightarrow> (jsnumber \<times> jsstring) option" where
  "lex_number s =
     (case s of
        [] \<Rightarrow> None
      | c # cs \<Rightarrow> if c = c_minus then lex_unsigned True cs else lex_unsigned False s)"

lemma lex_string_shorter: "lex_string s = Some (t, r) \<Longrightarrow> length r < length s"
proof (induction s arbitrary: t r rule: lex_string.induct)
  case 1
  then show ?case by simp
next
  case (2 c cs)
  show ?case
  proof (cases "c = c_quote")
    case True
    with "2.prems" show ?thesis by simp
  next
    case nq: False
    show ?thesis
    proof (cases "c = c_backslash")
      case False
      with nq "2.prems" "2.IH"(3) show ?thesis
        by (fastforce simp: cons_res_def split: if_splits option.splits)
    next
      case True
      with nq "2.prems" obtain e es where cs: "cs = e # es"
        by (cases cs) auto
      show ?thesis
      proof (cases "e = c_u")
        case False
        with nq True cs "2.prems" "2.IH"(2) show ?thesis
          by (fastforce simp: cons_res_def split: if_splits option.splits)
      next
        case u: True
        with nq True cs "2.prems" obtain h1 h2 h3 h4 r' where es: "es = h1 # h2 # h3 # h4 # r'"
          by (auto split: list.splits)
        with nq True cs u "2.prems" "2.IH"(1) show ?thesis
          by (fastforce simp: cons_res_def split: if_splits option.splits)
      qed
    qed
  qed
qed

lemma dropWhile_shorter: "takeWhile P xs \<noteq> [] \<Longrightarrow> length (dropWhile P xs) < length xs"
  by (cases xs) (auto simp: length_dropWhile_le less_Suc_eq_le split: if_splits)

lemma lex_int_shorter: "lex_int s = Some (ip, r) \<Longrightarrow> length r < length s"
  by (auto simp: lex_int_def Let_def dropWhile_shorter split: if_splits)

lemma lex_frac_shorter: "lex_frac s = Some (fp, r) \<Longrightarrow> length r \<le> length s"
  by (auto simp: lex_frac_def length_dropWhile_le le_SucI split: list.splits if_splits)

lemma lex_exp_digits_shorter: "lex_exp_digits neg s = Some (e, r) \<Longrightarrow> length r \<le> length s"
  by (auto simp: lex_exp_digits_def length_dropWhile_le split: if_splits)

lemma lex_exp_shorter: "lex_exp s = Some (e, r) \<Longrightarrow> length r \<le> length s"
  by (auto simp: lex_exp_def le_SucI dest!: lex_exp_digits_shorter split: list.splits if_splits)

lemma lex_unsigned_shorter: "lex_unsigned neg s = Some (n, r) \<Longrightarrow> length r < length s"
  by (fastforce simp: lex_unsigned_def split: option.splits
      dest: lex_int_shorter lex_frac_shorter lex_exp_shorter)

lemma lex_number_shorter: "lex_number s = Some (n, r) \<Longrightarrow> length r < length s"
  by (auto simp: lex_number_def less_Suc_eq split: list.splits if_splits
      dest!: lex_unsigned_shorter)

text \<open>The tokens of a text; \<open>None\<close> when it is not a sequence of JSON tokens.\<close>

definition cons_tok :: "token \<Rightarrow> token list option \<Rightarrow> token list option" where
  "cons_tok t r = (case r of None \<Rightarrow> None | Some ts \<Rightarrow> Some (t # ts))"

function lex :: "jsstring \<Rightarrow> token list option" where
  "lex [] = Some []"
| "lex (c # cs) =
     (if is_json_ws c then lex cs
      else if c = c_lbrace then cons_tok TokLBrace (lex cs)
      else if c = c_rbrace then cons_tok TokRBrace (lex cs)
      else if c = c_lbrack then cons_tok TokLBrack (lex cs)
      else if c = c_rbrack then cons_tok TokRBrack (lex cs)
      else if c = c_colon then cons_tok TokColon (lex cs)
      else if c = c_comma then cons_tok TokComma (lex cs)
      else if c = c_quote then
        (case lex_string cs of
           None \<Rightarrow> None
         | Some (t, r) \<Rightarrow> cons_tok (TokString t) (lex r))
      else if c = c_minus \<or> is_digit c then
        (case lex_number (c # cs) of
           None \<Rightarrow> None
         | Some (n, r) \<Rightarrow> cons_tok (TokNumber n) (lex r))
      else if startsWith (c # cs) (js ''true'') then cons_tok TokTrue (lex (drop 3 cs))
      else if startsWith (c # cs) (js ''false'') then cons_tok TokFalse (lex (drop 4 cs))
      else if startsWith (c # cs) (js ''null'') then cons_tok TokNull (lex (drop 3 cs))
      else None)"
  by pat_completeness auto
termination
proof (relation "measure length", goal_cases)
  case (9 c cs x2 t r)
  then show ?case using lex_string_shorter [of cs t r] by simp
next
  case (10 c cs x2 n r)
  then show ?case using lex_number_shorter [of "c # cs" n r] by simp
qed simp_all

text \<open>
  The syntactic grammar. A function gives the value it read and the tokens after it.
  \<open>parse_members\<close> reads the members of an object from a key on, \<open>parse_elements\<close> the
  elements of an array from a value on; a later member of the same name replaces the
  earlier one. The tests \<open>length r < length ts\<close> always hold (lemma \<open>parse_shorter\<close>):
  they are there for the termination proof.
\<close>

function parse_value :: "token list \<Rightarrow> (jsval \<times> token list) option"
  and parse_members :: "(jsstring \<times> jsval) list \<Rightarrow> token list \<Rightarrow> (jsval \<times> token list) option"
  and parse_elements :: "jsval list \<Rightarrow> token list \<Rightarrow> (jsval \<times> token list) option"
where
  "parse_value [] = None"
| "parse_value (t # ts) =
     (case t of
        TokString s \<Rightarrow> Some (JStr s, ts)
      | TokNumber n \<Rightarrow> Some (JNum n, ts)
      | TokTrue \<Rightarrow> Some (JBool True, ts)
      | TokFalse \<Rightarrow> Some (JBool False, ts)
      | TokNull \<Rightarrow> Some (JNull, ts)
      | TokLBrace \<Rightarrow>
          (case ts of
             TokRBrace # r \<Rightarrow> Some (JObj [], r)
           | _ \<Rightarrow> parse_members [] ts)
      | TokLBrack \<Rightarrow>
          (case ts of
             TokRBrack # r \<Rightarrow> Some (JArr [], r)
           | _ \<Rightarrow> parse_elements [] ts)
      | _ \<Rightarrow> None)"
| "parse_members acc ts =
     (case ts of
        TokString k # TokColon # ts' \<Rightarrow>
          (case parse_value ts' of
             None \<Rightarrow> None
           | Some (v, r) \<Rightarrow>
               if length r < length ts' then
                 (case r of
                    TokComma # r' \<Rightarrow> parse_members (AList.update k v acc) r'
                  | TokRBrace # r' \<Rightarrow> Some (JObj (AList.update k v acc), r')
                  | _ \<Rightarrow> None)
               else None)
      | _ \<Rightarrow> None)"
| "parse_elements acc ts =
     (case parse_value ts of
        None \<Rightarrow> None
      | Some (v, r) \<Rightarrow>
          if length r < length ts then
            (case r of
               TokComma # r' \<Rightarrow> parse_elements (acc @ [v]) r'
             | TokRBrack # r' \<Rightarrow> Some (JArr (acc @ [v]), r')
             | _ \<Rightarrow> None)
          else None)"
  by pat_completeness auto
termination
  by (relation "measure (\<lambda>x. case x of
        Inl ts \<Rightarrow> 2 * length ts
      | Inr (Inl (acc, ts)) \<Rightarrow> 2 * length ts + 1
      | Inr (Inr (acc, ts)) \<Rightarrow> 2 * length ts + 1)") auto

text \<open>\<open>JSON.parse(text)\<close>: the value of the text, or a SyntaxError.\<close>

definition JSON_parse :: "jsstring \<Rightarrow> js_error + jsval" where
  "JSON_parse text =
     (case lex text of
        None \<Rightarrow> Inl SyntaxError
      | Some ts \<Rightarrow>
          (case parse_value ts of
             Some (v, []) \<Rightarrow> Inr v
           | _ \<Rightarrow> Inl SyntaxError))"

section \<open>Repair and the fallback chain (json-validator.ts, repairJSON and parseAIFeedback)\<close>

text \<open>The five patterns of \<open>repairJSON\<close> and their replacement texts.\<close>

definition rx_unterminated :: rx where
  \<comment> \<open>\<^verbatim>\<open>/:\s*"([^"]*?)(?=\s*[,}])/g\<close>\<close>
  "rx_unterminated =
     seqs [Atom (COne c_colon), Star (Atom CSpace), Atom (COne c_quote),
           Group 1 (StarLazy (Atom (CNotSet [c_quote]))),
           Lookahead (seqs [Star (Atom CSpace), Atom (CSet [c_comma, c_rbrace])])]"

definition rep_unterminated :: "rpart list" where
  \<comment> \<open>\<^verbatim>\<open>': "$1"'\<close>\<close>
  "rep_unterminated = [RLit (js '': \"''), RCap 1, RLit (js ''\"'')]"

definition rx_missing_comma_key :: rx where
  \<comment> \<open>\<^verbatim>\<open>/}\s*"([^"]+)":\s*/g\<close>\<close>
  "rx_missing_comma_key =
     seqs [Atom (COne c_rbrace), Star (Atom CSpace), Atom (COne c_quote),
           Group 1 (plus (Atom (CNotSet [c_quote]))),
           Atom (COne c_quote), Atom (COne c_colon), Star (Atom CSpace)]"

definition rep_missing_comma_key :: "rpart list" where
  \<comment> \<open>\<^verbatim>\<open>'}, "$1": '\<close>\<close>
  "rep_missing_comma_key = [RLit (js ''}, \"''), RCap 1, RLit (js ''\": '')]"

definition rx_missing_comma_obj :: rx where
  \<comment> \<open>\<^verbatim>\<open>/}\s*{/g\<close>\<close>
  "rx_missing_comma_obj =
     seqs [Atom (COne c_rbrace), Star (Atom CSpace), Atom (COne c_lbrace)]"

definition rep_missing_comma_obj :: "rpart list" where
  \<comment> \<open>\<^verbatim>\<open>'}, {'\<close>\<close>
  "rep_missing_comma_obj = [RLit (js ''}, {'')]"

definition rx_trailing_comma :: rx where
  \<comment> \<open>\<^verbatim>\<open>/,(\s*[}\]])/g\<close>\<close>
  "rx_trailing_comma =
     seqs [Atom (COne c_comma),
           Group 1 (seqs [Star (Atom CSpace), Atom (CSet [c_rbrace, c_rbrack])])]"

definition rep_trailing_comma :: "rpart list" where
  \<comment> \<open>\<^verbatim>\<open>'$1'\<close>\<close>
  "rep_trailing_comma = [RCap 1]"

definition rx_newline_in_string :: rx where
  \<comment> \<open>\<^verbatim>\<open>/"([^"]*)\n([^"]*)"/g\<close>\<close>
  "rx_newline_in_string =
     seqs [Atom (COne c_quote),
           Group 1 (Star (Atom (CNotSet [c_quote]))),
           Atom (COne c_newline),
           Group 2 (Star (Atom (CNotSet [c_quote]))),
           Atom (COne c_quote)]"

definition rep_newline_in_string :: "rpart list" where
  \<comment> \<open>\<^verbatim>\<open>'"$1\\n$2"'\<close>: a quote, capture 1, a backslash, the letter n, capture 2, a quote\<close>
  "rep_newline_in_string =
     [RLit (js ''\"''), RCap 1, RLit [c_backslash, c_n], RCap 2, RLit (js ''\"'')]"

definition repairJSON :: "jsstring \<Rightarrow> jsstring" where
  "repairJSON jsonString =
     (let repaired = trim jsonString;
          firstBrace = indexOf repaired c_lbrace;
          repaired = (if firstBrace > 0 then substring_from repaired firstBrace else repaired);
          lastBrace = lastIndexOf repaired c_rbrace;
          repaired = (if lastBrace \<ge> 0 \<and> lastBrace < int (length repaired) - 1
                      then substring repaired 0 (lastBrace + 1) else repaired)
      in replace_all rx_newline_in_string rep_newline_in_string
           (replace_all rx_trailing_comma rep_trailing_comma
             (replace_all rx_missing_comma_obj rep_missing_comma_obj
               (replace_all rx_missing_comma_key rep_missing_comma_key
                 (replace_all rx_unterminated rep_unterminated repaired)))))"

text \<open>The three patterns of \<open>parseAIFeedback\<close>.\<close>

definition rx_fence_json :: rx where
  \<comment> \<open>\<^verbatim>\<open>/^```json\s*/\<close>\<close>
  "rx_fence_json =
     seqs [Bol, Atom (COne c_backtick), Atom (COne c_backtick), Atom (COne c_backtick),
           Atom (COne c_j), Atom (COne c_s), Atom (COne c_o),
           Atom (COne c_n), Star (Atom CSpace)]"

definition rx_fence_open :: rx where
  \<comment> \<open>\<^verbatim>\<open>/^```\s*/\<close>\<close>
  "rx_fence_open =
     seqs [Bol, Atom (COne c_backtick), Atom (COne c_backtick), Atom (COne c_backtick),
           Star (Atom CSpace)]"

definition rx_fence_close :: rx where
  \<comment> \<open>\<^verbatim>\<open>/\s*```$/\<close>\<close>
  "rx_fence_close =
     seqs [Star (Atom CSpace), Atom (COne c_backtick), Atom (COne c_backtick),
           Atom (COne c_backtick), Eol]"

definition rx_object :: rx where
  \<comment> \<open>\<^verbatim>\<open>/\{[\s\S]*\}/\<close>\<close>
  "rx_object = seqs [Atom (COne c_lbrace), Star (Atom CAny), Atom (COne c_rbrace)]"

record parse_result =
  success :: bool
  feedback :: jsval
  method_tag :: jsstring
  error :: "jsstring option"

text \<open>
  The body of each of the three \<open>try\<close> blocks: \<open>JSON.parse\<close>, then the validator. The
  result is the parsed value when the block returns it, and \<open>None\<close> when the block falls
  through: the value does not validate, or an error was thrown and caught.
\<close>

definition attempt :: "jsstring \<Rightarrow> jsval option" where
  "attempt text =
     (case JSON_parse text of
        Inl e \<Rightarrow> None
      | Inr parsed \<Rightarrow>
          (case validateFeedbackStructure parsed of
             Inl e \<Rightarrow> None
           | Inr ok \<Rightarrow> if ok then Some parsed else None))"

text \<open>The text the first strategy parses: trimmed, and without the code fence.\<close>

definition processedText :: "jsstring \<Rightarrow> jsstring" where
  "processedText rawText =
     (let cleanedText = trim rawText
      in if startsWith cleanedText (js ''```json'')
         then replace_first rx_fence_close [] (replace_first rx_fence_json [] cleanedText)
         else if startsWith cleanedText (js ''```'')
         then replace_first rx_fence_close [] (replace_first rx_fence_open [] cleanedText)
         else cleanedText)"

definition fallback_result :: parse_result where
  "fallback_result =
     \<lparr>success = False,
      feedback = createFallbackFeedback (Some (js ''Unable to parse AI response'')),
      method_tag = js ''fallback'',
      error = Some (js ''All parsing strategies failed'')\<rparr>"

definition parseAIFeedback :: "jsstring \<Rightarrow> parse_result" where
  "parseAIFeedback rawText =
     (case attempt (processedText rawText) of
        Some parsed \<Rightarrow>
          \<lparr>success = True, feedback = parsed, method_tag = js ''direct'', error = None\<rparr>
      | None \<Rightarrow>
          (case match0 rx_object (processedText rawText) of
             None \<Rightarrow> fallback_result
           | Some jsonMatch \<Rightarrow>
               (case attempt jsonMatch of
                  Some parsed \<Rightarrow>
                    \<lparr>success = True, feedback = parsed, method_tag = js ''regex_extraction'',
                     error = None\<rparr>
                | None \<Rightarrow>
                    (case attempt (repairJSON jsonMatch) of
                       Some parsed \<Rightarrow>
                         \<lparr>success = True, feedback = parsed, method_tag = js ''repair'',
                          error = None\<rparr>
                     | None \<Rightarrow> fallback_result))))"

text \<open>
  The three recovery stages of \<open>parseAIFeedback\<close>, each with the record it yields: the
  first \<open>try\<close> block, the second one (entered when the pattern matches), and the third
  one (entered when the pattern matches).
\<close>

definition stage_direct :: "jsstring \<Rightarrow> jsval option" where
  "stage_direct rawText = attempt (processedText rawText)"

definition stage_extraction :: "jsstring \<Rightarrow> jsval option" where
  "stage_extraction rawText =
     (case match0 rx_object (processedText rawText) of
        None \<Rightarrow> None
      | Some jsonMatch \<Rightarrow> attempt jsonMatch)"

definition stage_repair :: "jsstring \<Rightarrow> jsval option" where
  "stage_repair rawText =
     (case match0 rx_object (processedText rawText) of
        None \<Rightarrow> None
      | Some jsonMatch \<Rightarrow> attempt (repairJSON jsonMatch))"

section \<open>The record invariant, in the specification's words\<close>

text \<open>
  An object in the sense of the language: a value of type object other than \<open>null\<close>.
  \<open>field\<close> is the value of a property of such a value, \<open>undefined\<close> when it has none.
\<close>

definition is_object :: "jsval \<Rightarrow> bool" where
  "is_object v = (typeof v = TObject \<and> v \<noteq> JNull)"

definition field :: "jsval \<Rightarrow> jsstring \<Rightarrow> jsval" where
  "field v name = (case v of JObj kvs \<Rightarrow> (case map_of kvs name of Some w \<Rightarrow> w | None \<Rightarrow> JUndefined)
                   | _ \<Rightarrow> JUndefined)"

definition is_number :: "jsval \<Rightarrow> bool" where
  "is_number v = (case v of JNum n \<Rightarrow> True | _ \<Rightarrow> False)"

definition is_string :: "jsval \<Rightarrow> bool" where
  "is_string v = (case v of JStr s \<Rightarrow> True | _ \<Rightarrow> False)"

definition is_array :: "jsval \<Rightarrow> bool" where
  "is_array v = (case v of JArr xs \<Rightarrow> True | _ \<Rightarrow> False)"

definition elements :: "jsval \<Rightarrow> jsval list" where
  "elements v = (case v of JArr xs \<Rightarrow> xs | _ \<Rightarrow> [])"

text \<open>
  A tip of a section: an object whose kind is one of the two enumerated values, whose
  \<open>tip\<close> is a string and which, outside the ATS section, has a string \<open>explanation\<close>.
\<close>

definition tip_ok :: "jsstring \<Rightarrow> jsval \<Rightarrow> bool" where
  "tip_ok section t =
     (is_object t
      \<and> (field t (js ''type'') = JStr (js ''good'') \<or> field t (js ''type'') = JStr (js ''improve''))
      \<and> is_string (field t (js ''tip''))
      \<and> (section = js ''ATS'' \<or> is_string (field t (js ''explanation''))))"

text \<open>A section: present as an object, with a numeric score and an array of tips.\<close>

definition section_ok :: "jsval \<Rightarrow> jsstring \<Rightarrow> bool" where
  "section_ok v section =
     (is_object (field v section)
      \<and> is_number (field (field v section) (js ''score''))
      \<and> is_array (field (field v section) (js ''tips''))
      \<and> list_all (tip_ok section) (elements (field (field v section) (js ''tips''))))"

definition feedback_record_ok :: "jsval \<Rightarrow> bool" where
  "feedback_record_ok v =
     (is_object v
      \<and> is_number (field v (js ''overallScore''))
      \<and> section_ok v (js ''ATS'')
      \<and> section_ok v (js ''toneAndStyle'')
      \<and> section_ok v (js ''content'')
      \<and> section_ok v (js ''structure'')
      \<and> section_ok v (js ''skills''))"

section \<open>Properties of the validator\<close>

lemma js_simps:
  "js [] = []"
  "js (c # cs) = of_char c # js cs"
  by (simp_all add: js_def)

lemma char_codes:
  "c_quote = of_char (CHR 0x22)"
  "c_backslash = of_char (CHR 0x5C)"
  "c_slash = of_char (CHR ''/'')"
  "c_lbrace = of_char (CHR ''{'')"
  "c_rbrace = of_char (CHR ''}'')"
  "c_lbrack = of_char (CHR ''['')"
  "c_rbrack = of_char (CHR '']'')"
  "c_colon = of_char (CHR '':'')"
  "c_comma = of_char (CHR '','')"
  "c_minus = of_char (CHR ''-'')"
  "c_plus = of_char (CHR ''+'')"
  "c_dot = of_char (CHR ''.'')"
  "c_zero = of_char (CHR ''0'')"
  "c_backtick = of_char (CHR ''`'')"
  "c_newline = of_char (CHR 0x0A)"
  "c_b = of_char (CHR ''b'')"
  "c_e = of_char (CHR ''e'')"
  "c_E = of_char (CHR ''E'')"
  "c_f = of_char (CHR ''f'')"
  "c_j = of_char (CHR ''j'')"
  "c_n = of_char (CHR ''n'')"
  "c_o = of_char (CHR ''o'')"
  "c_r = of_char (CHR ''r'')"
  "c_s = of_char (CHR ''s'')"
  "c_t = of_char (CHR ''t'')"
  "c_u = of_char (CHR ''u'')"
  by simp_all

lemma js_ATS_neq:
  "js ''toneAndStyle'' \<noteq> js ''ATS''"
  "js ''content'' \<noteq> js ''ATS''"
  "js ''structure'' \<noteq> js ''ATS''"
  "js ''skills'' \<noteq> js ''ATS''"
  by (simp_all add: js_simps)

lemma get_prop_object:
  "truthy v \<Longrightarrow> typeof v = TObject \<Longrightarrow> get_prop v name = Inr (field v name)"
  by (cases v) (simp_all add: field_def)

lemma truthy_object_iff: "(truthy v \<and> typeof v = TObject) = is_object v"
  by (cases v rule: truthy.cases) (simp_all add: is_object_def)

lemma typeof_number_iff: "(typeof v = TNumber) = is_number v"
  by (cases v) (simp_all add: is_number_def)

lemma typeof_string_iff: "(typeof v = TString) = is_string v"
  by (cases v) (simp_all add: is_string_def)

lemma check_tip_eq: "check_tip section t = Inr (tip_ok section t)"
proof (cases "is_object t")
  case False
  then show ?thesis
    using truthy_object_iff [of t] by (auto simp: check_tip_def tip_ok_def)
next
  case True
  then have obj: "truthy t" "typeof t = TObject"
    using truthy_object_iff [of t] by auto
  show ?thesis
    using True
    by (simp add: check_tip_def tip_ok_def obj get_prop_object bind_err_def
        typeof_string_iff)
qed

lemma check_tips_eq: "check_tips section ts = Inr (list_all (tip_ok section) ts)"
  by (induction ts) (simp_all add: check_tip_eq bind_err_def)

lemma check_section_eq:
  assumes "is_object v"
  shows "check_section v section = Inr (section_ok v section)"
proof -
  from assms have obj: "truthy v" "typeof v = TObject"
    using truthy_object_iff [of v] by auto
  let ?s = "field v section"
  show ?thesis
  proof (cases "is_object ?s")
    case False
    then show ?thesis
      using truthy_object_iff [of ?s]
      by (auto simp: check_section_def section_ok_def get_prop_object [OF obj] bind_err_def)
  next
    case True
    then have sobj: "truthy ?s" "typeof ?s = TObject"
      using truthy_object_iff [of ?s] by auto
    show ?thesis
      using True
      by (cases "field ?s (js ''tips'')")
        (simp_all add: check_section_def section_ok_def get_prop_object [OF obj]
          get_prop_object [OF sobj] sobj bind_err_def typeof_number_iff is_array_def
          elements_def check_tips_eq)
  qed
qed

lemma check_sections_eq:
  assumes "is_object v"
  shows "check_sections v ss = Inr (list_all (section_ok v) ss)"
  by (induction ss) (simp_all add: check_section_eq [OF assms] bind_err_def)

lemma validate_eq: "validateFeedbackStructure v = Inr (feedback_record_ok v)"
proof (cases "is_object v")
  case False
  then show ?thesis
    using truthy_object_iff [of v]
    by (auto simp: validateFeedbackStructure_def feedback_record_ok_def)
next
  case True
  then have obj: "truthy v" "typeof v = TObject"
    using truthy_object_iff [of v] by auto
  show ?thesis
    using True
    by (simp add: validateFeedbackStructure_def feedback_record_ok_def obj
        get_prop_object [OF obj] bind_err_def typeof_number_iff
        check_sections_eq [OF True] sections_def del: check_sections.simps)
qed

text \<open>
  Claim C2. The validator returns true for exactly the values that satisfy the record
  invariant: an object with a numeric \<open>overallScore\<close> whose five sections are objects
  with a numeric score and an array of tips, every tip an object of kind \<open>good\<close> or
  \<open>improve\<close> with a string \<open>tip\<close> and, outside the ATS section, a string
  \<open>explanation\<close>. On every other value it returns false.
\<close>

theorem validateFeedbackStructure_iff_invariant:
  "validateFeedbackStructure v = Inr (feedback_record_ok v)"
  by (rule validate_eq)

text \<open>The fallback record is accepted; \<open>null\<close>, an array and an object without sections are rejected.\<close>

theorem validateFeedbackStructure_iff_invariant_witness:
  "validateFeedbackStructure (createFallbackFeedback None) = Inr True
   \<and> validateFeedbackStructure JNull = Inr False
   \<and> validateFeedbackStructure (JArr [JNum (Finite 1)]) = Inr False
   \<and> validateFeedbackStructure (JObj [(js ''overallScore'', JNum (Finite 1))]) = Inr False"
  using validateFeedbackStructure_iff_invariant [of "createFallbackFeedback None"]
    validateFeedbackStructure_iff_invariant [of JNull]
    validateFeedbackStructure_iff_invariant [of "JArr [JNum (Finite 1)]"]
    validateFeedbackStructure_iff_invariant [of "JObj [(js ''overallScore'', JNum (Finite 1))]"]
  by (simp add: createFallbackFeedback_def Let_def feedback_record_ok_def section_ok_def
      tip_ok_def is_object_def is_number_def is_string_def is_array_def elements_def field_def
      js_simps)

text \<open>
  Claim C3. The validator is total and deterministic: on every value it returns exactly
  one result, a boolean, and it never throws.
\<close>

theorem validateFeedbackStructure_total:
  "\<exists>!b. validateFeedbackStructure v = Inr b"
  by (simp add: validate_eq)

theorem validateFeedbackStructure_total_witness:
  "(\<exists>!b. validateFeedbackStructure (JArr [JNull, JObj [(js ''tips'', JUndefined)]]) = Inr b)
   \<and> (\<exists>!b. validateFeedbackStructure JUndefined = Inr b)"
  using validateFeedbackStructure_total [of "JArr [JNull, JObj [(js ''tips'', JUndefined)]]"]
    validateFeedbackStructure_total [of JUndefined]
  by blast

section \<open>Properties of the fallback chain\<close>

lemma attempt_valid: "attempt t = Some v \<Longrightarrow> validateFeedbackStructure v = Inr True"
  by (auto simp: attempt_def split: sum.splits if_splits)

lemma js_key_neq:
  "js ''overallScore'' \<noteq> js ''ATS''" "js ''ATS'' \<noteq> js ''overallScore''"
  "js ''toneAndStyle'' \<noteq> js ''overallScore''" "js ''content'' \<noteq> js ''overallScore''"
  "js ''structure'' \<noteq> js ''overallScore''" "js ''skills'' \<noteq> js ''overallScore''"
  "js ''ATS'' \<noteq> js ''toneAndStyle''" "js ''ATS'' \<noteq> js ''content''"
  "js ''ATS'' \<noteq> js ''structure''" "js ''ATS'' \<noteq> js ''skills''"
  "js ''toneAndStyle'' \<noteq> js ''content''" "js ''toneAndStyle'' \<noteq> js ''structure''"
  "js ''toneAndStyle'' \<noteq> js ''skills''" "js ''content'' \<noteq> js ''toneAndStyle''"
  "js ''content'' \<noteq> js ''structure''" "js ''content'' \<noteq> js ''skills''"
  "js ''structure'' \<noteq> js ''toneAndStyle''" "js ''structure'' \<noteq> js ''content''"
  "js ''structure'' \<noteq> js ''skills''" "js ''skills'' \<noteq> js ''toneAndStyle''"
  "js ''skills'' \<noteq> js ''content''" "js ''skills'' \<noteq> js ''structure''"
  "js ''score'' \<noteq> js ''tips''" "js ''tips'' \<noteq> js ''score''"
  "js ''type'' \<noteq> js ''tip''" "js ''tip'' \<noteq> js ''type''"
  "js ''type'' \<noteq> js ''explanation''" "js ''explanation'' \<noteq> js ''type''"
  "js ''tip'' \<noteq> js ''explanation''" "js ''explanation'' \<noteq> js ''tip''"
  "js ''good'' \<noteq> js ''improve''" "js ''improve'' \<noteq> js ''good''"
  by (simp_all add: js_simps)

lemmas record_simps =
  feedback_record_ok_def section_ok_def tip_ok_def is_object_def is_number_def is_string_def
  is_array_def elements_def field_def js_key_neq js_ATS_neq

lemma createFallbackFeedback_valid:
  "validateFeedbackStructure (createFallbackFeedback a) = Inr True"
  by (simp add: validate_eq createFallbackFeedback_def Let_def record_simps)

lemma parseAIFeedback_cases:
  "parseAIFeedback rawText =
     (case stage_direct rawText of
        Some parsed \<Rightarrow>
          \<lparr>success = True, feedback = parsed, method_tag = js ''direct'', error = None\<rparr>
      | None \<Rightarrow>
          (case stage_extraction rawText of
             Some parsed \<Rightarrow>
               \<lparr>success = True, feedback = parsed, method_tag = js ''regex_extraction'',
                error = None\<rparr>
           | None \<Rightarrow>
               (case stage_repair rawText of
                  Some parsed \<Rightarrow>
                    \<lparr>success = True, feedback = parsed, method_tag = js ''repair'',
                     error = None\<rparr>
                | None \<Rightarrow> fallback_result)))"
  by (simp add: parseAIFeedback_def stage_direct_def stage_extraction_def stage_repair_def
      split: option.splits)

lemma stage_valid:
  "stage_direct t = Some v \<Longrightarrow> validateFeedbackStructure v = Inr True"
  "stage_extraction t = Some v \<Longrightarrow> validateFeedbackStructure v = Inr True"
  "stage_repair t = Some v \<Longrightarrow> validateFeedbackStructure v = Inr True"
  by (auto simp: stage_direct_def stage_extraction_def stage_repair_def
      dest: attempt_valid split: option.splits)

text \<open>
  Claim C1. For every input the feedback that \<open>parseAIFeedback\<close> returns satisfies the
  validator (so it is not \<open>null\<close>). When none of the three recovery stages yields a
  validating record, the result is the fallback: \<open>success\<close> is false and the method is
  \<open>fallback\<close>.
\<close>

theorem parseAIFeedback_always_valid:
  "validateFeedbackStructure (feedback (parseAIFeedback rawText)) = Inr True
   \<and> feedback (parseAIFeedback rawText) \<noteq> JNull
   \<and> (stage_direct rawText = None \<and> stage_extraction rawText = None
        \<and> stage_repair rawText = None
      \<longrightarrow> success (parseAIFeedback rawText) = False
          \<and> method_tag (parseAIFeedback rawText) = js ''fallback''
          \<and> validateFeedbackStructure (feedback (parseAIFeedback rawText)) = Inr True)"
proof -
  have valid: "validateFeedbackStructure (feedback (parseAIFeedback rawText)) = Inr True"
    by (auto simp: parseAIFeedback_cases fallback_result_def createFallbackFeedback_valid
        stage_valid split: option.splits)
  have "feedback (parseAIFeedback rawText) \<noteq> JNull"
  proof
    assume "feedback (parseAIFeedback rawText) = JNull"
    with valid show False
      by (simp add: validateFeedbackStructure_def)
  qed
  moreover have "stage_direct rawText = None \<and> stage_extraction rawText = None
        \<and> stage_repair rawText = None
      \<longrightarrow> success (parseAIFeedback rawText) = False
          \<and> method_tag (parseAIFeedback rawText) = js ''fallback''"
    by (simp add: parseAIFeedback_cases fallback_result_def)
  ultimately show ?thesis using valid by blast
qed

theorem parseAIFeedback_always_valid_witness:
  "stage_direct (js ''I cannot process this request.'') = None
   \<and> stage_extraction (js ''I cannot process this request.'') = None
   \<and> stage_repair (js ''I cannot process this request.'') = None
   \<and> success (parseAIFeedback (js ''I cannot process this request.'')) = False
   \<and> method_tag (parseAIFeedback (js ''I cannot process this request.'')) = js ''fallback''
   \<and> validateFeedbackStructure (feedback (parseAIFeedback (js ''I cannot process this request.'')))
       = Inr True"
proof -
  have none: "stage_direct (js ''I cannot process this request.'') = None
      \<and> stage_extraction (js ''I cannot process this request.'') = None
      \<and> stage_repair (js ''I cannot process this request.'') = None"
    by code_simp
  with parseAIFeedback_always_valid [of "js ''I cannot process this request.''"]
  show ?thesis by blast
qed

section \<open>The matcher on the patterns of parseAIFeedback\<close>

declare m.simps(4,5) [simp del]
declare rx_search.simps [simp del]

text \<open>
  A state of the matcher is well formed for an input of length \<open>n\<close> when its position and
  what is left of the input add up to \<open>n\<close>; \<open>advance s j\<close> is \<open>s\<close> after \<open>j\<close> more code units.
\<close>

definition wf_state :: "int \<Rightarrow> mstate \<Rightarrow> bool" where
  "wf_state n s = (endIndex s + int (length (rest s)) = n \<and> 0 \<le> endIndex s)"

definition advance :: "mstate \<Rightarrow> nat \<Rightarrow> mstate" where
  "advance s j = s\<lparr>endIndex := endIndex s + int j, rest := drop j (rest s)\<rparr>"

lemma advance_0 [simp]: "advance s 0 = s"
  by (simp add: advance_def)

lemma advance_advance: "advance (advance s a) b = advance s (a + b)"
  by (simp add: advance_def add.commute add.left_commute)

lemma m_atom_step:
  "rest s = x # xs \<Longrightarrow> m n (Atom c) k s = (if cls_mem c x then k (advance s 1) else None)"
  by (simp add: advance_def)

lemma m_atom_nil: "rest s = [] \<Longrightarrow> m n (Atom c) k s = None"
  by simp

text \<open>The greedy star over a class: the longest run first, then shorter ones.\<close>

lemma star_class_fail:
  assumes "wf_state n s"
    and "\<And>j. j \<le> length (takeWhile (cls_mem c) (rest s)) \<Longrightarrow> k (advance s j) = None"
  shows "m n (Star (Atom c)) k s = None"
  using assms
proof (induction "length (rest s)" arbitrary: s)
  case 0
  then have "rest s = []" by simp
  moreover from "0.prems"(2) [of 0] have "k s = None" by simp
  ultimately show ?case by (simp add: m.simps(4))
next
  case (Suc l)
  then obtain x xs where xs: "rest s = x # xs" by (cases "rest s") auto
  from Suc.prems(2) [of 0] have k0: "k s = None" by simp
  show ?case
  proof (cases "cls_mem c x")
    case False
    with xs k0 show ?thesis by (simp add: m.simps(4))
  next
    case True
    let ?s1 = "advance s 1"
    have wf1: "wf_state n ?s1" using Suc.prems(1) xs by (simp add: wf_state_def advance_def)
    have len1: "l = length (rest ?s1)" using Suc.hyps(2) xs by (simp add: advance_def)
    have "m n (Star (Atom c)) k ?s1 = None"
    proof (rule Suc.hyps(1) [OF len1 wf1])
      fix j assume "j \<le> length (takeWhile (cls_mem c) (rest ?s1))"
      then have "Suc j \<le> length (takeWhile (cls_mem c) (rest s))"
        using xs True by (simp add: advance_def)
      from Suc.prems(2) [OF this] show "k (advance ?s1 j) = None"
        by (simp add: advance_advance)
    qed
    moreover have "endIndex s < endIndex ?s1 \<and> endIndex ?s1 \<le> n"
      using Suc.prems(1) xs by (simp add: wf_state_def advance_def)
    ultimately show ?thesis
      using xs True k0 by (simp add: advance_def m.simps(4) [of n "Atom c" k s])
  qed
qed


lemma star_class_first:
  assumes "wf_state n s"
    and "j0 \<le> length (takeWhile (cls_mem c) (rest s))"
    and "k (advance s j0) = Some e"
    and "\<And>j. j0 < j \<Longrightarrow> j \<le> length (takeWhile (cls_mem c) (rest s)) \<Longrightarrow> k (advance s j) = None"
  shows "m n (Star (Atom c)) k s = Some e"
  using assms
proof (induction "length (rest s)" arbitrary: s j0)
  case 0
  then have "rest s = []" "j0 = 0" by simp_all
  with "0.prems"(3) show ?case by (simp add: m.simps(4))
next
  case (Suc l)
  then obtain x xs where xs: "rest s = x # xs" by (cases "rest s") auto
  show ?case
  proof (cases "cls_mem c x")
    case False
    with xs Suc.prems(2) have "j0 = 0" by simp
    with Suc.prems(3) xs False show ?thesis by (simp add: m.simps(4))
  next
    case True
    let ?s1 = "advance s 1"
    have wf1: "wf_state n ?s1" using Suc.prems(1) xs by (simp add: wf_state_def advance_def)
    have len1: "l = length (rest ?s1)" using Suc.hyps(2) xs by (simp add: advance_def)
    have tw: "length (takeWhile (cls_mem c) (rest s)) = Suc (length (takeWhile (cls_mem c) (rest ?s1)))"
      using xs True by (simp add: advance_def)
    have guard: "endIndex s < endIndex ?s1 \<and> endIndex ?s1 \<le> n"
      using Suc.prems(1) xs by (simp add: wf_state_def advance_def)
    have unfold: "m n (Star (Atom c)) k s =
        (case m n (Star (Atom c)) k ?s1 of Some e \<Rightarrow> Some e | None \<Rightarrow> k s)"
      using xs True guard by (simp add: advance_def m.simps(4) [of n "Atom c" k s])
    show ?thesis
    proof (cases j0)
      case 0
      have "m n (Star (Atom c)) k ?s1 = None"
      proof (rule star_class_fail [OF wf1])
        fix j assume "j \<le> length (takeWhile (cls_mem c) (rest ?s1))"
        then have "0 < Suc j" "Suc j \<le> length (takeWhile (cls_mem c) (rest s))"
          using tw by simp_all
        from Suc.prems(4) [of "Suc j"] this 0 show "k (advance ?s1 j) = None"
          by (simp add: advance_advance)
      qed
      with unfold Suc.prems(3) 0 show ?thesis by simp
    next
      case (Suc j1)
      have "m n (Star (Atom c)) k ?s1 = Some e"
      proof (rule Suc.hyps(1) [OF len1 wf1, of j1])
        show "j1 \<le> length (takeWhile (cls_mem c) (rest ?s1))"
          using Suc.prems(2) Suc tw by simp
        show "k (advance ?s1 j1) = Some e"
          using Suc.prems(3) Suc by (simp add: advance_advance)
        fix j assume "j1 < j" "j \<le> length (takeWhile (cls_mem c) (rest ?s1))"
        then have "j0 < Suc j" "Suc j \<le> length (takeWhile (cls_mem c) (rest s))"
          using Suc tw by simp_all
        from Suc.prems(4) [OF this] show "k (advance ?s1 j) = None"
          by (simp add: advance_advance)
      qed
      with unfold show ?thesis by simp
    qed
  qed
qed

text \<open>The search: the first position that has a match.\<close>

definition st :: "int \<Rightarrow> jsstring \<Rightarrow> mstate" where
  "st i s = \<lparr>endIndex = i, rest = s, captures = Map.empty\<rparr>"

lemma rx_search_fail:
  assumes "\<And>j. j \<le> length s \<Longrightarrow> m n r Some (st (i + int j) (drop j s)) = None"
  shows "rx_search n r i s = None"
  using assms
proof (induction s arbitrary: i)
  case Nil
  from Nil [of 0] show ?case by (simp add: st_def rx_search.simps)
next
  case (Cons c cs)
  from Cons.prems [of 0] have h0: "m n r Some (st i (c # cs)) = None" by simp
  have "rx_search n r (i + 1) cs = None"
  proof (rule Cons.IH)
    fix j assume "j \<le> length cs"
    with Cons.prems [of "Suc j"] show "m n r Some (st (i + 1 + int j) (drop j cs)) = None"
      by (simp add: ac_simps)
  qed
  with h0 show ?case by (simp add: st_def rx_search.simps [of n r i "c # cs"])
qed

lemma rx_search_first:
  assumes "j0 \<le> length s"
    and "m n r Some (st (i + int j0) (drop j0 s)) = Some e"
    and "\<And>j. j < j0 \<Longrightarrow> m n r Some (st (i + int j) (drop j s)) = None"
  shows "rx_search n r i s = Some (i + int j0, e)"
  using assms
proof (induction s arbitrary: i j0)
  case Nil
  then show ?case by (simp add: st_def rx_search.simps)
next
  case (Cons c cs)
  show ?case
  proof (cases j0)
    case 0
    with Cons.prems(2) show ?thesis by (simp add: st_def rx_search.simps [of n r i "c # cs"])
  next
    case (Suc j1)
    from Cons.prems(3) [of 0] Suc have h0: "m n r Some (st i (c # cs)) = None" by simp
    have "rx_search n r (i + 1) cs = Some (i + 1 + int j1, e)"
    proof (rule Cons.IH)
      show "j1 \<le> length cs" using Cons.prems(1) Suc by simp
      show "m n r Some (st (i + 1 + int j1) (drop j1 cs)) = Some e"
        using Cons.prems(2) Suc by (simp add: ac_simps)
      fix j assume "j < j1"
      with Cons.prems(3) [of "Suc j"] Suc show "m n r Some (st (i + 1 + int j) (drop j cs)) = None"
        by (simp add: ac_simps)
    qed
    with h0 Suc show ?thesis by (simp add: st_def ac_simps rx_search.simps [of n r i "c # cs"])
  qed
qed

lemma wf_state_st: "wf_state n (st i t) = (i + int (length t) = n \<and> 0 \<le> i)"
  by (simp add: wf_state_def st_def)

lemma rest_advance [simp]: "rest (advance s j) = drop j (rest s)"
  by (simp add: advance_def)

lemma endIndex_advance [simp]: "endIndex (advance s j) = endIndex s + int j"
  by (simp add: advance_def)

lemma captures_advance [simp]: "captures (advance s j) = captures s"
  by (simp add: advance_def)

lemma takeWhile_any [simp]: "takeWhile (cls_mem CAny) xs = xs"
  by (induction xs) simp_all

lemma star_class_all:
  assumes "wf_state n s"
  shows "m n (Star (Atom c)) Some s = Some (advance s (length (takeWhile (cls_mem c) (rest s))))"
  by (rule star_class_first [OF assms]) auto

text \<open>The pattern of the object: from the first opening brace to the last closing one.\<close>

lemma object_at_fail:
  assumes "t = [] \<or> hd t \<noteq> c_lbrace"
  shows "m n rx_object Some (st i t) = None"
  using assms by (cases t) (auto simp: rx_object_def st_def)

lemma object_at_match:
  assumes t: "t = c_lbrace # body @ c_rbrace # post"
    and post: "c_rbrace \<notin> set post"
    and wf: "wf_state n (st i t)"
  shows "m n rx_object Some (st i t) =
         Some \<lparr>endIndex = i + 2 + int (length body), rest = post, captures = Map.empty\<rparr>"
proof -
  let ?s1 = "\<lparr>endIndex = i + 1, rest = body @ c_rbrace # post, captures = Map.empty\<rparr>"
  let ?k = "m n (Atom (COne c_rbrace)) Some"
  have wf1: "wf_state n ?s1"
    using wf t by (simp add: wf_state_def st_def)
  have "m n (Star (Atom CAny)) ?k ?s1 =
        Some \<lparr>endIndex = i + 2 + int (length body), rest = post, captures = Map.empty\<rparr>"
  proof (rule star_class_first [OF wf1, of "length body"])
    show "length body \<le> length (takeWhile (cls_mem CAny) (rest ?s1))"
      by simp
    show "?k (advance ?s1 (length body)) =
          Some \<lparr>endIndex = i + 2 + int (length body), rest = post, captures = Map.empty\<rparr>"
      by (simp add: advance_def)
    fix j assume j: "length body < j" "j \<le> length (takeWhile (cls_mem CAny) (rest ?s1))"
    define d where "d = j - Suc (length body)"
    have d: "j = length body + Suc d" using j(1) by (simp add: d_def)
    have "rest (advance ?s1 j) = drop d post"
      by (simp add: d)
    moreover have "drop d post = [] \<or> hd (drop d post) \<noteq> c_rbrace"
      using post by (metis hd_in_set in_set_dropD)
    ultimately show "?k (advance ?s1 j) = None"
      by (cases "drop d post") auto
  qed
  then show ?thesis
    using t by (simp add: rx_object_def st_def)
qed

lemma match0_object_none:
  assumes "c_lbrace \<notin> set s"
  shows "match0 rx_object s = None"
proof -
  have "rx_search (int (length s)) rx_object 0 s = None"
  proof (rule rx_search_fail)
    fix j assume "j \<le> length s"
    have "drop j s = [] \<or> hd (drop j s) \<noteq> c_lbrace"
      using assms by (metis hd_in_set in_set_dropD)
    then show "m (int (length s)) rx_object Some (st (0 + int j) (drop j s)) = None"
      by (rule object_at_fail)
  qed
  then show ?thesis by (simp add: match0_def)
qed

lemma match0_object:
  assumes s: "s = pre @ c_lbrace # body @ c_rbrace # post"
    and pre: "c_lbrace \<notin> set pre"
    and post: "c_rbrace \<notin> set post"
  shows "match0 rx_object s = Some (c_lbrace # body @ [c_rbrace])"
proof -
  let ?n = "int (length s)"
  let ?e = "\<lparr>endIndex = int (length pre) + 2 + int (length body), rest = post,
             captures = Map.empty\<rparr>"
  have "rx_search ?n rx_object 0 s = Some (0 + int (length pre), ?e)"
  proof (rule rx_search_first)
    show "length pre \<le> length s" using s by simp
    have "wf_state ?n (st (0 + int (length pre)) (drop (length pre) s))"
      using s by (simp add: wf_state_st)
    moreover have "drop (length pre) s = c_lbrace # body @ c_rbrace # post"
      using s by simp
    ultimately show "m ?n rx_object Some (st (0 + int (length pre)) (drop (length pre) s)) = Some ?e"
      using object_at_match [OF _ post, of "drop (length pre) s" body ?n "0 + int (length pre)"]
      by simp
    fix j assume j: "j < length pre"
    then have "drop j s = drop j pre @ c_lbrace # body @ c_rbrace # post"
      using s by simp
    moreover have "drop j pre \<noteq> []" using j by simp
    ultimately have "hd (drop j s) \<in> set pre"
      by (metis hd_append2 hd_in_set in_set_dropD)
    with pre have "hd (drop j s) \<noteq> c_lbrace" by metis
    then show "m ?n rx_object Some (st (0 + int j) (drop j s)) = None"
      by (intro object_at_fail) simp
  qed
  moreover have "nat (int (length pre) + 2 + int (length body) - (0 + int (length pre)))
      = Suc (Suc (length body))"
    by simp
  ultimately show ?thesis
    using s by (simp add: match0_def)
qed

lemma drop_takeWhile_length: "drop (length (takeWhile P xs)) xs = dropWhile P xs"
  by (simp add: dropWhile_eq_drop)

lemma startsWith_iff: "startsWith s p = (\<exists>t. s = p @ t)"
  by (metis append_eq_conv_conj startsWith_def)

lemma cls_mem_CSpace [simp]: "cls_mem CSpace = is_space"
  by (rule ext) simp

text \<open>The opening fences.\<close>

lemma replace_fence_json:
  assumes "startsWith s (js ''```json'')"
  shows "replace_first rx_fence_json [] s = dropWhile is_space (drop 7 s)"
proof -
  from assms obtain t where s: "s = c_backtick # c_backtick # c_backtick # c_j # c_s # c_o # c_n # t"
    by (auto simp: startsWith_iff js_simps)
  let ?n = "int (length s)"
  let ?s7 = "\<lparr>endIndex = 7, rest = t, captures = Map.empty\<rparr>"
  have wf: "wf_state ?n ?s7"
    using s by (simp add: wf_state_def)
  have "m ?n rx_fence_json Some (st 0 s) = m ?n (Star (Atom CSpace)) Some ?s7"
    using s by (simp add: rx_fence_json_def st_def)
  also have "\<dots> = Some (advance ?s7 (length (takeWhile is_space t)))"
    using star_class_all [OF wf, of CSpace] by simp
  finally have "rx_search ?n rx_fence_json 0 s
      = Some (0, advance ?s7 (length (takeWhile is_space t)))"
    by (simp add: rx_search.simps [of _ _ _ s] st_def)
  then show ?thesis
    using s by (simp add: replace_first_def drop_takeWhile_length)
qed

lemma replace_fence_open:
  assumes "startsWith s (js ''```'')"
  shows "replace_first rx_fence_open [] s = dropWhile is_space (drop 3 s)"
proof -
  from assms obtain t where s: "s = c_backtick # c_backtick # c_backtick # t"
    by (auto simp: startsWith_iff js_simps)
  let ?n = "int (length s)"
  let ?s3 = "\<lparr>endIndex = 3, rest = t, captures = Map.empty\<rparr>"
  have wf: "wf_state ?n ?s3"
    using s by (simp add: wf_state_def)
  have "m ?n rx_fence_open Some (st 0 s) = m ?n (Star (Atom CSpace)) Some ?s3"
    using s by (simp add: rx_fence_open_def st_def)
  also have "\<dots> = Some (advance ?s3 (length (takeWhile is_space t)))"
    using star_class_all [OF wf, of CSpace] by simp
  finally have "rx_search ?n rx_fence_open 0 s
      = Some (0, advance ?s3 (length (takeWhile is_space t)))"
    by (simp add: rx_search.simps [of _ _ _ s] st_def)
  then show ?thesis
    using s by (simp add: replace_first_def drop_takeWhile_length)
qed

text \<open>The closing fence: the first position from which only white space and the fence follow.\<close>

definition bt3 :: jsstring where
  "bt3 = [c_backtick, c_backtick, c_backtick]"

fun strip_close :: "jsstring \<Rightarrow> jsstring" where
  "strip_close [] = []"
| "strip_close (c # cs) = (if dropWhile is_space (c # cs) = bt3 then [] else c # strip_close cs)"

definition rx_close_tail :: rx where
  "rx_close_tail =
     seqs [Atom (COne c_backtick), Atom (COne c_backtick), Atom (COne c_backtick), Eol]"

lemma rx_fence_close_eq: "rx_fence_close = Seq (Star (Atom CSpace)) rx_close_tail"
  by (simp add: rx_fence_close_def rx_close_tail_def)

lemma close_tail:
  "m n rx_close_tail Some s = (if rest s = bt3 then Some (advance s 3) else None)"
proof (cases "rest s")
  case Nil
  then show ?thesis by (simp add: bt3_def rx_close_tail_def)
next
  case (Cons a as)
  note a = this
  show ?thesis
  proof (cases as)
    case Nil
    with a show ?thesis by (simp add: bt3_def rx_close_tail_def)
  next
    case (Cons b bs)
    note b = this
    show ?thesis
    proof (cases bs)
      case Nil
      with a b show ?thesis by (simp add: bt3_def rx_close_tail_def)
    next
      case (Cons c cs)
      with a b show ?thesis by (cases cs) (auto simp: bt3_def advance_def rx_close_tail_def)
    qed
  qed
qed

lemma close_at:
  assumes wf: "wf_state n (st i t)"
  shows "m n rx_fence_close Some (st i t) =
         (if dropWhile is_space t = bt3
          then Some \<lparr>endIndex = n, rest = [], captures = Map.empty\<rparr> else None)"
proof -
  let ?k = "m n rx_close_tail Some"
  let ?w = "length (takeWhile is_space t)"
  have unfold: "m n rx_fence_close Some (st i t) = m n (Star (Atom CSpace)) ?k (st i t)"
    by (simp add: rx_fence_close_eq)
  have short: "?k (advance (st i t) j) = None" if "j < ?w" for j
  proof -
    from that have "j < length t"
      by (meson length_takeWhile_le less_le_trans)
    then have "drop j t = t ! j # drop (Suc j) t"
      by (simp add: Cons_nth_drop_Suc)
    moreover have "is_space (t ! j)"
      using that by (metis nth_mem set_takeWhileD takeWhile_nth)
    then have "t ! j \<noteq> c_backtick" by (auto simp: is_space_def)
    ultimately show ?thesis
      by (simp add: close_tail bt3_def st_def)
  qed
  show ?thesis
  proof (cases "dropWhile is_space t = bt3")
    case True
    have "m n (Star (Atom CSpace)) ?k (st i t) = Some (advance (advance (st i t) ?w) 3)"
    proof (rule star_class_first [OF wf, of ?w])
      show "?w \<le> length (takeWhile (cls_mem CSpace) (rest (st i t)))"
        by (simp add: st_def)
      show "?k (advance (st i t) ?w) = Some (advance (advance (st i t) ?w) 3)"
        using True by (simp add: close_tail st_def drop_takeWhile_length)
      fix j assume "?w < j" "j \<le> length (takeWhile (cls_mem CSpace) (rest (st i t)))"
      then show "?k (advance (st i t) j) = None"
        by (simp add: st_def)
    qed
    moreover have "length t = ?w + 3"
      using True takeWhile_dropWhile_id [of is_space t]
      by (metis One_nat_def Suc_eq_plus1 bt3_def length_Cons length_append list.size(3)
          numeral_3_eq_3)
    then have "advance (advance (st i t) ?w) 3 = \<lparr>endIndex = n, rest = [], captures = Map.empty\<rparr>"
      using wf by (simp add: advance_def st_def wf_state_def)
    ultimately show ?thesis
      using True unfold by simp
  next
    case False
    have "m n (Star (Atom CSpace)) ?k (st i t) = None"
    proof (rule star_class_fail [OF wf])
      fix j assume "j \<le> length (takeWhile (cls_mem CSpace) (rest (st i t)))"
      then have "j < ?w \<or> j = ?w" by (auto simp: st_def)
      then show "?k (advance (st i t) j) = None"
      proof
        assume "j < ?w" then show ?thesis by (rule short)
      next
        assume "j = ?w"
        then show ?thesis
          using False by (simp add: close_tail st_def drop_takeWhile_length)
      qed
    qed
    with False unfold show ?thesis by simp
  qed
qed

lemma rx_search_ge: "rx_search n r i s = Some (j, e) \<Longrightarrow> i \<le> j"
proof (induction s arbitrary: i)
  case Nil
  then show ?case by (auto simp: rx_search.simps [of _ _ _ "[]"] split: option.splits)
next
  case (Cons c cs)
  then show ?case
    by (fastforce simp: rx_search.simps [of _ _ _ "c # cs"] split: option.splits)
qed

lemma search_close:
  assumes "i + int (length t) = n" "0 \<le> i"
  shows "(case rx_search n rx_fence_close i t of
            None \<Rightarrow> t
          | Some (j, e) \<Rightarrow> take (nat (j - i)) t @ rest e) = strip_close t"
  using assms
proof (induction t arbitrary: i)
  case Nil
  then have "wf_state n (st i [])" by (simp add: wf_state_st)
  from close_at [OF this] show ?case
    by (simp add: rx_search.simps [of _ _ _ "[]"] st_def bt3_def)
next
  case (Cons c cs)
  then have wf: "wf_state n (st i (c # cs))" by (simp add: wf_state_st)
  show ?case
  proof (cases "dropWhile is_space (c # cs) = bt3")
    case True
    with close_at [OF wf] show ?thesis
      by (simp add: rx_search.simps [of _ _ _ "c # cs"] st_def)
  next
    case False
    with close_at [OF wf]
    have step: "rx_search n rx_fence_close i (c # cs) = rx_search n rx_fence_close (i + 1) cs"
      by (simp add: rx_search.simps [of _ _ _ "c # cs"] st_def)
    have IH: "(case rx_search n rx_fence_close (i + 1) cs of
            None \<Rightarrow> cs
          | Some (j, e) \<Rightarrow> take (nat (j - (i + 1))) cs @ rest e) = strip_close cs"
      using Cons.prems by (intro Cons.IH) simp_all
    show ?thesis
    proof (cases "rx_search n rx_fence_close (i + 1) cs")
      case None
      with IH step False show ?thesis by simp
    next
      case (Some p)
      obtain j e where p: "p = (j, e)" by (cases p)
      from rx_search_ge [of n rx_fence_close "i + 1" cs j e] Some p have "i + 1 \<le> j" by simp
      then have "nat (j - i) = Suc (nat (j - (i + 1)))" by simp
      with IH step False Some p show ?thesis by simp
    qed
  qed
qed

lemma replace_fence_close: "replace_first rx_fence_close [] s = strip_close s"
  using search_close [of 0 s "int (length s)"]
  by (auto simp: replace_first_def split: option.splits)

lemma strip_close_prefix:
  "\<exists>q. s = strip_close s @ q \<and> (\<forall>c\<in>set q. is_space c \<or> c = c_backtick)"
proof (induction s)
  case Nil
  then show ?case by simp
next
  case (Cons c cs)
  show ?case
  proof (cases "dropWhile is_space (c # cs) = bt3")
    case False
    with Cons show ?thesis by auto
  next
    case True
    have "set (c # cs) = set (takeWhile is_space (c # cs)) \<union> set (dropWhile is_space (c # cs))"
      by (metis set_append takeWhile_dropWhile_id)
    then have "\<forall>x\<in>set (c # cs). is_space x \<or> x = c_backtick"
      unfolding True by (auto simp: bt3_def dest: set_takeWhileD)
    with True show ?thesis by simp
  qed
qed

lemma strip_close_exact:
  assumes "\<forall>c\<in>set w. is_space c" and "p = [] \<or> \<not> is_space (last p)"
  shows "strip_close (p @ w @ bt3) = p"
  using assms(2)
proof (induction p)
  case Nil
  have "dropWhile is_space (w @ bt3) = bt3"
    using assms(1) by (simp add: dropWhile_append bt3_def is_space_def)
  then show ?case by (cases "w @ bt3") (simp_all add: bt3_def)
next
  case (Cons c p)
  have last: "\<not> is_space (last (c # p))" using Cons.prems by simp
  then have "last (c # p) \<in> set (c # p)" by (metis last_in_set list.discI)
  with last have "dropWhile is_space ((c # p) @ w @ bt3) = dropWhile is_space (c # p) @ w @ bt3"
    by (metis dropWhile_append1)
  moreover have "dropWhile is_space (c # p) \<noteq> []"
    using last \<open>last (c # p) \<in> set (c # p)\<close> by (metis dropWhile_eq_Nil_conv)
  ultimately have "length (dropWhile is_space ((c # p) @ w @ bt3)) > 3"
    by (cases "dropWhile is_space (c # p)") (simp_all add: bt3_def)
  then have ne: "dropWhile is_space (c # p @ w @ bt3) \<noteq> bt3"
    by (auto simp: bt3_def)
  have "p = [] \<or> \<not> is_space (last p)" using Cons.prems by (cases p) simp_all
  from Cons.IH [OF this] ne show ?case by simp
qed

declare parse_members.simps [simp del] parse_elements.simps [simp del]

section \<open>Texts around an object\<close>

definition object_text :: "jsstring \<Rightarrow> bool" where
  "object_text t = (t \<noteq> [] \<and> hd t = c_lbrace \<and> last t = c_rbrace)"

lemma not_space_brace [simp]: "\<not> is_space c_lbrace" "\<not> is_space c_rbrace" "\<not> is_space c_backtick"
  by (simp_all add: is_space_def)

lemma object_text_split:
  assumes "object_text t"
  obtains body where "t = c_lbrace # body @ [c_rbrace]"
proof -
  from assms obtain u where u: "t = c_lbrace # u"
    by (cases t) (auto simp: object_text_def)
  with assms have "u \<noteq> []" "last u = c_rbrace"
    by (auto simp: object_text_def split: if_splits)
  then have "u = butlast u @ [c_rbrace]"
    by (metis append_butlast_last_id)
  with u that show thesis by metis
qed

lemma dropWhile_core:
  assumes "t \<noteq> []" "\<not> P (hd t)"
  shows "dropWhile P (a @ t @ b) = dropWhile P a @ t @ b"
proof (induction a)
  case Nil
  from assms show ?case by (cases t) simp_all
next
  case (Cons x a)
  then show ?case by simp
qed

lemma trim_core:
  assumes "t \<noteq> []" "\<not> is_space (hd t)" "\<not> is_space (last t)"
  shows "trim (a @ t @ b) = dropWhile is_space a @ t @ rev (dropWhile is_space (rev b))"
proof -
  have "dropWhile is_space (a @ t @ b) = dropWhile is_space a @ t @ b"
    using assms(1,2) by (rule dropWhile_core)
  moreover have "rev (dropWhile is_space a @ t @ b) = rev b @ rev t @ rev (dropWhile is_space a)"
    by simp
  moreover have "dropWhile is_space (rev b @ rev t @ rev (dropWhile is_space a))
      = dropWhile is_space (rev b) @ rev t @ rev (dropWhile is_space a)"
    using assms by (intro dropWhile_core) (simp_all add: hd_rev)
  ultimately show ?thesis by (simp add: trim_def)
qed

lemma trim_id:
  assumes "t \<noteq> []" "\<not> is_space (hd t)" "\<not> is_space (last t)"
  shows "trim t = t"
  using trim_core [OF assms, of "[]" "[]"] by simp

lemma set_trim: "set (trim s) \<subseteq> set s"
proof -
  have "set (dropWhile is_space (rev (dropWhile is_space s))) \<subseteq> set (rev (dropWhile is_space s))"
    by (meson set_dropWhileD subsetI)
  also have "\<dots> \<subseteq> set s"
    by (auto dest: set_dropWhileD)
  finally show ?thesis by (simp add: trim_def)
qed

lemma set_strip_close: "set (strip_close s) \<subseteq> set s"
  using strip_close_prefix [of s] by (metis Un_upper1 set_append)

lemma set_processedText: "set (processedText rawText) \<subseteq> set rawText"
proof -
  have drop: "set (strip_close (dropWhile is_space (drop k (trim rawText)))) \<subseteq> set rawText" for k
  proof -
    have "set (strip_close (dropWhile is_space (drop k (trim rawText))))
        \<subseteq> set (dropWhile is_space (drop k (trim rawText)))"
      by (rule set_strip_close)
    also have "\<dots> \<subseteq> set (drop k (trim rawText))"
      by (meson set_dropWhileD subsetI)
    also have "\<dots> \<subseteq> set (trim rawText)"
      by (rule set_drop_subset)
    also have "\<dots> \<subseteq> set rawText"
      by (rule set_trim)
    finally show ?thesis .
  qed
  show ?thesis
    using drop [of 7] drop [of 3] set_trim [of rawText]
    by (simp add: processedText_def Let_def replace_fence_json replace_fence_open
        replace_fence_close)
qed

lemma startsWith_before:
  assumes "startsWith (a @ c # r) p" "c \<notin> set p"
  shows "length p \<le> length a"
proof (rule ccontr)
  assume "\<not> length p \<le> length a"
  then have lt: "length a < length p" by simp
  from assms(1) obtain t where "a @ c # r = p @ t"
    by (auto simp: startsWith_iff)
  then have "(a @ c # r) ! length a = (p @ t) ! length a" by simp
  with lt have "c = p ! length a" by (simp add: nth_append)
  with lt assms(2) show False by simp
qed

lemma suffix_after:
  assumes "a @ c # b = res @ q" "c \<notin> set q"
  shows "\<exists>b'. res = a @ c # b' \<and> b = b' @ q"
proof -
  from assms(1) consider u where "a = res @ u" "u @ c # b = q"
    | u where "a @ u = res" "c # b = u @ q"
    by (auto simp: append_eq_append_conv2)
  then show ?thesis
  proof cases
    case 1
    with assms(2) show ?thesis by auto
  next
    case 2
    with assms(2) show ?thesis
      by (cases u) auto
  qed
qed

text \<open>Around an object, the first strategy's text keeps the object and shortens what is around it.\<close>

lemma processedText_around:
  assumes obj: "object_text t"
  shows "\<exists>a' b'. processedText (a @ t @ b) = a' @ t @ b' \<and> set a' \<subseteq> set a \<and> set b' \<subseteq> set b"
proof -
  from obj obtain body where t: "t = c_lbrace # body @ [c_rbrace]"
    by (rule object_text_split)
  have core: "t \<noteq> []" "\<not> is_space (hd t)" "\<not> is_space (last t)"
    using t by simp_all
  define a1 where "a1 = dropWhile is_space a"
  define b1 where "b1 = rev (dropWhile is_space (rev b))"
  have tr: "trim (a @ t @ b) = a1 @ t @ b1"
    unfolding a1_def b1_def using core by (rule trim_core)
  have a1: "set a1 \<subseteq> set a"
    unfolding a1_def by (meson set_dropWhileD subsetI)
  have b1: "set b1 \<subseteq> set b"
    unfolding b1_def by (auto dest: set_dropWhileD)
  have at_back: "\<exists>b'. strip_close (x @ t @ b1) = x @ t @ b' \<and> set b' \<subseteq> set b" for x
  proof -
    obtain q where q: "x @ t @ b1 = strip_close (x @ t @ b1) @ q"
      "\<forall>c\<in>set q. is_space c \<or> c = c_backtick"
      using strip_close_prefix by blast
    have eq: "(x @ c_lbrace # body) @ c_rbrace # b1 = strip_close (x @ t @ b1) @ q"
      using q(1) t by simp
    have nq: "c_rbrace \<notin> set q"
      using q(2) by auto
    from suffix_after [OF eq nq] obtain b' where
      b': "strip_close (x @ t @ b1) = (x @ c_lbrace # body) @ c_rbrace # b'" "b1 = b' @ q"
      by blast
    have "set b' \<subseteq> set b" using b'(2) b1 by auto
    moreover have "strip_close (x @ t @ b1) = x @ t @ b'" using b'(1) t by simp
    ultimately show ?thesis by blast
  qed
  have at_front: "\<exists>a'. dropWhile is_space (drop k (a1 @ t @ b1)) = a' @ t @ b1 \<and> set a' \<subseteq> set a"
    if "k \<le> length a1" for k
  proof -
    have "drop k (a1 @ t @ b1) = drop k a1 @ t @ b1"
      using that by simp
    then have "dropWhile is_space (drop k (a1 @ t @ b1)) = dropWhile is_space (drop k a1) @ t @ b1"
      using core by (simp add: dropWhile_core)
    moreover have "set (dropWhile is_space (drop k a1)) \<subseteq> set a"
      using a1 by (meson in_set_dropD set_dropWhileD subset_iff)
    ultimately show ?thesis by blast
  qed
  show ?thesis
  proof (cases "startsWith (a1 @ t @ b1) (js ''```json'')")
    case True
    have "startsWith (a1 @ c_lbrace # (body @ [c_rbrace]) @ b1) (js ''```json'')"
      using True t by simp
    then have "length (js ''```json'') \<le> length a1"
      by (rule startsWith_before) (simp add: js_simps)
    then have "7 \<le> length a1" by (simp add: js_simps)
    from at_front [OF this] obtain a' where
      a': "dropWhile is_space (drop 7 (a1 @ t @ b1)) = a' @ t @ b1" "set a' \<subseteq> set a"
      by blast
    from at_back [of a'] a' True tr show ?thesis
      by (auto simp: processedText_def Let_def replace_fence_json replace_fence_close)
  next
    case nj: False
    show ?thesis
    proof (cases "startsWith (a1 @ t @ b1) (js ''```'')")
      case True
      have "startsWith (a1 @ c_lbrace # (body @ [c_rbrace]) @ b1) (js ''```'')"
        using True t by simp
      then have "length (js ''```'') \<le> length a1"
        by (rule startsWith_before) (simp add: js_simps)
      then have "3 \<le> length a1" by (simp add: js_simps)
      from at_front [OF this] obtain a' where
        a': "dropWhile is_space (drop 3 (a1 @ t @ b1)) = a' @ t @ b1" "set a' \<subseteq> set a"
        by blast
      from at_back [of a'] a' True nj tr show ?thesis
        by (auto simp: processedText_def Let_def replace_fence_open replace_fence_close)
    next
      case False
      with nj tr a1 b1 show ?thesis
        by (auto simp: processedText_def Let_def)
    qed
  qed
qed

section \<open>Where a parsed object starts\<close>

lemma parse_elements_array:
  "parse_elements acc ts = Some (v, r) \<Longrightarrow> \<exists>xs. v = JArr xs"
proof (induction "length ts" arbitrary: ts acc rule: less_induct)
  case less
  from less.prems show ?case
    by (subst (asm) parse_elements.simps)
      (auto split: option.splits if_splits list.splits token.splits dest!: less.hyps [rotated])
qed

lemma parse_value_object:
  assumes "parse_value ts = Some (JObj kvs, r)"
  shows "\<exists>ts'. ts = TokLBrace # ts'"
proof (cases ts)
  case Nil
  with assms show ?thesis by simp
next
  case (Cons t ts')
  with assms show ?thesis
    by (cases t) (auto split: list.splits token.splits dest: parse_elements_array)
qed

lemma cons_tok_eq: "cons_tok t r = Some (u # us) \<Longrightarrow> t = u"
  by (auto simp: cons_tok_def split: option.splits)

lemma lex_first_brace: "lex t = Some (TokLBrace # ts) \<Longrightarrow> c_lbrace \<in> set t"
proof (induction t)
  case Nil
  then show ?case by simp
next
  case (Cons c cs)
  show ?case
  proof (cases "is_json_ws c")
    case True
    with Cons show ?thesis by simp
  next
    case False
    show ?thesis
    proof (cases "c = c_lbrace")
      case True
      then show ?thesis by simp
    next
      case nb: False
      from Cons.prems False nb have False
        by (auto split: if_splits option.splits dest!: cons_tok_eq)
      then show ?thesis ..
    qed
  qed
qed

lemma record_is_JObj: "feedback_record_ok v \<Longrightarrow> \<exists>kvs. v = JObj kvs"
  by (cases v) (simp_all add: feedback_record_ok_def is_object_def is_number_def field_def)

lemma attempt_needs_brace:
  assumes "attempt t = Some v"
  shows "c_lbrace \<in> set t"
proof -
  from assms have p: "JSON_parse t = Inr v" and ok: "validateFeedbackStructure v = Inr True"
    by (auto simp: attempt_def split: sum.splits if_splits)
  from ok obtain kvs where v: "v = JObj kvs"
    using record_is_JObj by (auto simp: validate_eq)
  from p v obtain ts r where "lex t = Some ts" "parse_value ts = Some (JObj kvs, r)"
    by (auto simp: JSON_parse_def split: option.splits list.splits)
  with parse_value_object lex_first_brace show ?thesis by blast
qed

section \<open>Example texts\<close>

text \<open>A record with tips, the smallest record, and a record with scores of every kind, each with its JSON text.\<close>

definition example_text :: jsstring where
  \<open>example_text = js ''{"overallScore":82,"ATS":{"score":90,"tips":[{"type":"good","tip":"Strong keywords"}]},"toneAndStyle":{"score":70,"tips":[{"type":"improve","tip":"Be concise","explanation":"Shorten the summary."}]},"content":{"score":75,"tips":[]},"structure":{"score":80,"tips":[]},"skills":{"score":85,"tips":[]}}''\<close>

definition section_of :: "jsnumber \<Rightarrow> jsval list \<Rightarrow> jsval" where
  "section_of n tips = JObj [(js ''score'', JNum n), (js ''tips'', JArr tips)]"

definition record_of ::
  "jsnumber \<Rightarrow> jsval \<Rightarrow> jsval \<Rightarrow> jsval \<Rightarrow> jsval \<Rightarrow> jsval \<Rightarrow> jsval" where
  "record_of n ats tone content structure skills =
     JObj [(js ''overallScore'', JNum n), (js ''ATS'', ats), (js ''toneAndStyle'', tone),
           (js ''content'', content), (js ''structure'', structure), (js ''skills'', skills)]"

definition example_record :: jsval where
  "example_record =
     record_of (Finite 82)
       (section_of (Finite 90)
          [JObj [(js ''type'', JStr (js ''good'')), (js ''tip'', JStr (js ''Strong keywords''))]])
       (section_of (Finite 70)
          [JObj [(js ''type'', JStr (js ''improve'')), (js ''tip'', JStr (js ''Be concise'')),
                 (js ''explanation'', JStr (js ''Shorten the summary.''))]])
       (section_of (Finite 75) []) (section_of (Finite 80) []) (section_of (Finite 85) [])"

definition bare_text :: jsstring where
  \<open>bare_text = js ''{"overallScore":1,"ATS":{"score":1,"tips":[]},"toneAndStyle":{"score":1,"tips":[]},"content":{"score":1,"tips":[]},"structure":{"score":1,"tips":[]},"skills":{"score":1,"tips":[]}}''\<close>

definition bare_record :: jsval where
  "bare_record =
     record_of (Finite 1) (section_of (Finite 1) []) (section_of (Finite 1) [])
       (section_of (Finite 1) []) (section_of (Finite 1) []) (section_of (Finite 1) [])"

definition odd_scores_text :: jsstring where
  \<open>odd_scores_text = js ''{"overallScore":-3.5,"ATS":{"score":1000,"tips":[]},"toneAndStyle":{"score":0.25,"tips":[]},"content":{"score":-1,"tips":[]},"structure":{"score":101,"tips":[]},"skills":{"score":1e3,"tips":[]}}''\<close>

definition odd_scores_record :: jsval where
  "odd_scores_record =
     record_of (Finite (- 7 / 2)) (section_of (Finite 1000) []) (section_of (Finite (1 / 4)) [])
       (section_of (Finite (- 1)) []) (section_of (Finite 101) []) (section_of (Finite 1000) [])"

lemma example_parses: "JSON_parse example_text = Inr example_record"
  by code_simp

lemma bare_parses: "JSON_parse bare_text = Inr bare_record"
  by code_simp

lemma odd_scores_parses: "JSON_parse odd_scores_text = Inr odd_scores_record"
  by code_simp

lemma example_object_text:
  "object_text example_text" "object_text bare_text" "object_text odd_scores_text"
  by code_simp+

lemma sections_valid_any_score:
  "validateFeedbackStructure
     (record_of n (section_of a []) (section_of b []) (section_of c []) (section_of d [])
        (section_of e [])) = Inr True"
  by (simp add: validate_eq record_of_def section_of_def record_simps)

lemma example_valid: "validateFeedbackStructure example_record = Inr True"
  by (simp add: validate_eq example_record_def record_of_def section_of_def record_simps)

lemma bare_valid: "validateFeedbackStructure bare_record = Inr True"
  unfolding bare_record_def by (rule sections_valid_any_score)

section \<open>The stages on texts of a known shape\<close>

lemma js_bt3: "js ''```'' = bt3"
  by (simp add: js_simps bt3_def)

lemma attempt_parsed:
  "JSON_parse t = Inr v \<Longrightarrow> validateFeedbackStructure v = Inr True \<Longrightarrow> attempt t = Some v"
  by (simp add: attempt_def)

lemma not_startsWith_fence:
  assumes "t \<noteq> []" "hd t \<noteq> c_backtick"
  shows "\<not> startsWith t (js ''```json'')" "\<not> startsWith t (js ''```'')"
  using assms by (auto simp: startsWith_iff js_simps)

lemma processedText_object:
  assumes "object_text t"
  shows "processedText t = t"
proof -
  from assms have "t \<noteq> []" "\<not> is_space (hd t)" "\<not> is_space (last t)" "hd t \<noteq> c_backtick"
    by (simp_all add: object_text_def)
  then show ?thesis
    by (simp add: processedText_def Let_def trim_id not_startsWith_fence)
qed

lemma direct_on_object_text:
  assumes "JSON_parse rawText = Inr v" "validateFeedbackStructure v = Inr True"
    "object_text rawText"
  shows "parseAIFeedback rawText =
         \<lparr>success = True, feedback = v, method_tag = js ''direct'', error = None\<rparr>"
  using assms by (simp add: parseAIFeedback_def processedText_object attempt_parsed)

lemma no_brace_fallback:
  assumes "c_lbrace \<notin> set rawText"
  shows "parseAIFeedback rawText = fallback_result"
proof -
  from assms set_processedText [of rawText] have nb: "c_lbrace \<notin> set (processedText rawText)"
    by blast
  then have "attempt (processedText rawText) = None"
    using attempt_needs_brace by (cases "attempt (processedText rawText)") auto
  moreover from nb have "match0 rx_object (processedText rawText) = None"
    by (rule match0_object_none)
  ultimately show ?thesis by (simp add: parseAIFeedback_def)
qed

lemma extraction_around:
  assumes parse: "JSON_parse t = Inr v" and valid: "validateFeedbackStructure v = Inr True"
    and obj: "object_text t"
    and pre: "c_lbrace \<notin> set pre" and post: "c_rbrace \<notin> set post"
    and direct: "stage_direct (pre @ t @ post) = None"
  shows "parseAIFeedback (pre @ t @ post) =
         \<lparr>success = True, feedback = v, method_tag = js ''regex_extraction'', error = None\<rparr>"
proof -
  from processedText_around [OF obj, of pre post] obtain a' b' where
    pt: "processedText (pre @ t @ post) = a' @ t @ b'" and "set a' \<subseteq> set pre" "set b' \<subseteq> set post"
    by blast
  with pre post have a': "c_lbrace \<notin> set a'" and b': "c_rbrace \<notin> set b'" by auto
  from obj obtain body where t: "t = c_lbrace # body @ [c_rbrace]"
    by (rule object_text_split)
  have "match0 rx_object (a' @ c_lbrace # body @ c_rbrace # b') = Some (c_lbrace # body @ [c_rbrace])"
    using a' b' by (intro match0_object) simp_all
  then have "match0 rx_object (processedText (pre @ t @ post)) = Some t"
    using pt t by simp
  moreover have "attempt t = Some v"
    using parse valid by (rule attempt_parsed)
  moreover have "attempt (processedText (pre @ t @ post)) = None"
    using direct by (simp add: stage_direct_def)
  ultimately show ?thesis
    by (simp add: parseAIFeedback_def)
qed

lemma fenced_text:
  assumes obj: "object_text t" and w1: "\<forall>c\<in>set w1. is_space c" and w2: "\<forall>c\<in>set w2. is_space c"
  shows "processedText (js ''```json'' @ w1 @ t @ w2 @ js ''```'') = t"
    and "processedText (js ''```'' @ w1 @ t @ w2 @ js ''```'') = t"
proof -
  from obj have core: "t \<noteq> []" "\<not> is_space (hd t)" "\<not> is_space (last t)"
    and hd: "hd t = c_lbrace"
    by (simp_all add: object_text_def)
  have dw: "dropWhile is_space (w1 @ t @ w2 @ bt3) = t @ w2 @ bt3"
    using dropWhile_core [of t is_space w1 "w2 @ bt3"] core w1 by simp
  have sc: "strip_close (t @ w2 @ bt3) = t"
    using w2 core by (intro strip_close_exact) simp_all
  let ?r1 = "js ''```json'' @ w1 @ t @ w2 @ js ''```''"
  let ?r2 = "js ''```'' @ w1 @ t @ w2 @ js ''```''"
  have tr1: "trim ?r1 = ?r1"
    by (rule trim_id) (simp_all add: js_simps)
  have tr2: "trim ?r2 = ?r2"
    by (rule trim_id) (simp_all add: js_simps)
  have s1: "startsWith ?r1 (js ''```json'')"
    by (simp add: startsWith_iff)
  have d1: "drop 7 ?r1 = w1 @ t @ w2 @ bt3"
    by (simp add: js_simps bt3_def)
  show "processedText ?r1 = t"
    unfolding processedText_def Let_def tr1
    by (simp only: s1 if_True replace_fence_json [OF s1] replace_fence_close d1 dw sc)
  have n2: "\<not> startsWith ?r2 (js ''```json'')"
  proof
    assume "startsWith ?r2 (js ''```json'')"
    then obtain u where "w1 @ t @ w2 @ js ''```'' = c_j # c_s # c_o # c_n # u"
      by (auto simp: startsWith_iff js_simps)
    then have "hd (w1 @ t @ w2 @ js ''```'') = c_j" by simp
    moreover have "hd (w1 @ t @ w2 @ js ''```'') = (if w1 = [] then hd t else hd w1)"
      using core(1) by (cases w1) simp_all
    ultimately show False
      using hd w1 by (cases w1) (auto simp: is_space_def split: if_splits)
  qed
  have s2: "startsWith ?r2 (js ''```'')"
    by (simp add: startsWith_iff)
  have d2: "drop 3 ?r2 = w1 @ t @ w2 @ bt3"
    by (simp add: js_simps bt3_def)
  show "processedText ?r2 = t"
    unfolding processedText_def Let_def tr2
    by (simp only: n2 s2 if_True if_False replace_fence_open [OF s2] replace_fence_close d2 dw sc)
qed

section \<open>The claims on the fallback chain\<close>

text \<open>
  Claim C4. When the input is exactly the JSON text of a valid record (a text from the
  opening to the closing brace that \<open>JSON.parse\<close> reads as a value the validator
  accepts), \<open>parseAIFeedback\<close> returns success, the method \<open>direct\<close>, and as feedback the
  very record the text describes.
\<close>

theorem parseAIFeedback_direct_on_record_text:
  assumes "JSON_parse rawText = Inr v"
    and "validateFeedbackStructure v = Inr True"
    and "object_text rawText"
  shows "parseAIFeedback rawText =
         \<lparr>success = True, feedback = v, method_tag = js ''direct'', error = None\<rparr>"
  using assms by (rule direct_on_object_text)

theorem parseAIFeedback_direct_on_record_text_witness:
  "JSON_parse example_text = Inr example_record
   \<and> validateFeedbackStructure example_record = Inr True
   \<and> object_text example_text
   \<and> parseAIFeedback example_text =
       \<lparr>success = True, feedback = example_record, method_tag = js ''direct'', error = None\<rparr>"
  using parseAIFeedback_direct_on_record_text
    [OF example_parses example_valid example_object_text(1)]
    example_parses example_valid example_object_text(1)
  by simp

text \<open>
  Claim C5. When all three stages fail, the result is the fixed fallback record: every
  score is 50, the ATS section has the one tip of kind \<open>improve\<close> with the retry message
  and no explanation, and each other section has the one tip of kind \<open>improve\<close>,
  \<open>Manual review needed\<close>, whose explanation starts with the diagnostic message. For a text
  without braces the result is this fallback: no success, method \<open>fallback\<close>, overall
  score 50.
\<close>

theorem parseAIFeedback_fallback_record:
  "(stage_direct rawText = None \<and> stage_extraction rawText = None \<and> stage_repair rawText = None
      \<longrightarrow> parseAIFeedback rawText = fallback_result)
   \<and> (c_lbrace \<notin> set rawText \<and> c_rbrace \<notin> set rawText
      \<longrightarrow> parseAIFeedback rawText = fallback_result)
   \<and> success fallback_result = False
   \<and> method_tag fallback_result = js ''fallback''
   \<and> feedback fallback_result = createFallbackFeedback (Some (js ''Unable to parse AI response''))
   \<and> createFallbackFeedback (Some msg) =
       record_of (Finite 50)
         (section_of (Finite 50)
            [JObj [(js ''type'', JStr (js ''improve'')),
                   (js ''tip'', JStr (js ''Upload failed - please try again''))]])
         (section_of (Finite 50)
            [JObj [(js ''type'', JStr (js ''improve'')), (js ''tip'', JStr (js ''Manual review needed'')),
                   (js ''explanation'', JStr (msg @ js ''. Please try uploading your resume again or contact support if the issue persists.''))]])
         (section_of (Finite 50)
            [JObj [(js ''type'', JStr (js ''improve'')), (js ''tip'', JStr (js ''Manual review needed'')),
                   (js ''explanation'', JStr (msg @ js ''. Please try uploading your resume again or contact support if the issue persists.''))]])
         (section_of (Finite 50)
            [JObj [(js ''type'', JStr (js ''improve'')), (js ''tip'', JStr (js ''Manual review needed'')),
                   (js ''explanation'', JStr (msg @ js ''. Please try uploading your resume again or contact support if the issue persists.''))]])
         (section_of (Finite 50)
            [JObj [(js ''type'', JStr (js ''improve'')), (js ''tip'', JStr (js ''Manual review needed'')),
                   (js ''explanation'', JStr (msg @ js ''. Please try uploading your resume again or contact support if the issue persists.''))]])
   \<and> field (feedback fallback_result) (js ''overallScore'') = JNum (Finite 50)
   \<and> field (JObj [(js ''type'', JStr (js ''improve'')),
                    (js ''tip'', JStr (js ''Upload failed - please try again''))])
        (js ''explanation'') = JUndefined"
proof -
  have "stage_direct rawText = None \<and> stage_extraction rawText = None
      \<and> stage_repair rawText = None \<longrightarrow> parseAIFeedback rawText = fallback_result"
    by (simp add: parseAIFeedback_cases)
  moreover have "c_lbrace \<notin> set rawText \<and> c_rbrace \<notin> set rawText
      \<longrightarrow> parseAIFeedback rawText = fallback_result"
    by (simp add: no_brace_fallback)
  moreover have "field (feedback fallback_result) (js ''overallScore'') = JNum (Finite 50)"
    by (simp add: fallback_result_def createFallbackFeedback_def Let_def field_def)
  moreover have "field (JObj [(js ''type'', JStr (js ''improve'')),
                    (js ''tip'', JStr (js ''Upload failed - please try again''))])
        (js ''explanation'') = JUndefined"
    by (simp add: field_def js_key_neq)
  ultimately show ?thesis
    by (simp add: fallback_result_def createFallbackFeedback_def Let_def record_of_def
        section_of_def)
qed

lemma no_stage_example:
  "stage_direct (js ''I cannot process this request.'') = None
   \<and> stage_extraction (js ''I cannot process this request.'') = None
   \<and> stage_repair (js ''I cannot process this request.'') = None"
  by code_simp

lemma no_brace_example:
  "c_lbrace \<notin> set (js ''I cannot process this request.'')
   \<and> c_rbrace \<notin> set (js ''I cannot process this request.'')"
  by (simp add: js_simps)

theorem parseAIFeedback_fallback_record_witness:
  "stage_direct (js ''I cannot process this request.'') = None
   \<and> stage_extraction (js ''I cannot process this request.'') = None
   \<and> stage_repair (js ''I cannot process this request.'') = None
   \<and> c_lbrace \<notin> set (js ''I cannot process this request.'')
   \<and> c_rbrace \<notin> set (js ''I cannot process this request.'')
   \<and> parseAIFeedback (js ''I cannot process this request.'') = fallback_result
   \<and> success fallback_result = False
   \<and> method_tag fallback_result = js ''fallback''
   \<and> field (feedback fallback_result) (js ''overallScore'') = JNum (Finite 50)"
  using parseAIFeedback_fallback_record [of "js ''I cannot process this request.''" "[]"]
    no_stage_example no_brace_example
  by blast

text \<open>
  Claim C6, as the code has it. A valid record's JSON text wrapped in a fence whose
  opening line is the three backticks followed by \<open>json\<close> or by nothing, then white
  space, with white space and three backticks after the text, is read by the first
  stage: success with the method \<open>direct\<close>.
\<close>

theorem parseAIFeedback_fenced_json_direct:
  assumes "JSON_parse t = Inr v"
    and "validateFeedbackStructure v = Inr True"
    and "object_text t"
    and "\<forall>c\<in>set w1. is_space c"
    and "\<forall>c\<in>set w2. is_space c"
  shows "parseAIFeedback (js ''```json'' @ w1 @ t @ w2 @ js ''```'') =
         \<lparr>success = True, feedback = v, method_tag = js ''direct'', error = None\<rparr>
       \<and> parseAIFeedback (js ''```'' @ w1 @ t @ w2 @ js ''```'') =
         \<lparr>success = True, feedback = v, method_tag = js ''direct'', error = None\<rparr>"
  using assms
  by (simp add: parseAIFeedback_def fenced_text attempt_parsed del: append_assoc)

theorem parseAIFeedback_fenced_json_direct_witness:
  "JSON_parse example_text = Inr example_record
   \<and> validateFeedbackStructure example_record = Inr True
   \<and> object_text example_text
   \<and> is_space c_newline
   \<and> parseAIFeedback (js ''```json'' @ [c_newline] @ example_text @ [c_newline] @ js ''```'') =
       \<lparr>success = True, feedback = example_record, method_tag = js ''direct'', error = None\<rparr>
   \<and> parseAIFeedback (js ''```'' @ [c_newline] @ example_text @ [c_newline] @ js ''```'') =
       \<lparr>success = True, feedback = example_record, method_tag = js ''direct'', error = None\<rparr>"
proof -
  have sp: "is_space c_newline" by (simp add: is_space_def)
  then have w: "\<forall>c\<in>set [c_newline]. is_space c" by simp
  from parseAIFeedback_fenced_json_direct
    [OF example_parses example_valid example_object_text(1) w w]
    example_parses example_valid example_object_text(1) sp
  show ?thesis by blast
qed

text \<open>
  The claim as stated fails for another tag: with the tag \<open>js\<close> the tag stays in the
  text, the first stage cannot parse it, and the record comes from the second stage.
\<close>

theorem parseAIFeedback_fenced_other_tag_counterexample:
  "JSON_parse bare_text = Inr bare_record
   \<and> validateFeedbackStructure bare_record = Inr True
   \<and> parseAIFeedback (js ''```js'' @ [c_newline] @ bare_text @ [c_newline] @ js ''```'') =
       \<lparr>success = True, feedback = bare_record, method_tag = js ''regex_extraction'',
        error = None\<rparr>
   \<and> js ''regex_extraction'' \<noteq> js ''direct''"
proof -
  have "parseAIFeedback (js ''```js'' @ [c_newline] @ bare_text @ [c_newline] @ js ''```'') =
       \<lparr>success = True, feedback = bare_record, method_tag = js ''regex_extraction'',
        error = None\<rparr>"
    by code_simp
  moreover have "js ''regex_extraction'' \<noteq> js ''direct''"
    by (simp add: js_simps)
  ultimately show ?thesis
    using bare_parses bare_valid by blast
qed

text \<open>
  Claim C7, as the code has it. A valid record's JSON text with prose around it, no
  opening brace before it and no closing brace after it, the whole not being read by the
  first stage, is found by the second stage: success with the method
  \<open>regex_extraction\<close>, and the feedback is the record of the text.
\<close>

theorem parseAIFeedback_extraction_in_prose:
  assumes "JSON_parse t = Inr v"
    and "validateFeedbackStructure v = Inr True"
    and "object_text t"
    and "c_lbrace \<notin> set pre"
    and "c_rbrace \<notin> set post"
    and "stage_direct (pre @ t @ post) = None"
  shows "parseAIFeedback (pre @ t @ post) =
         \<lparr>success = True, feedback = v, method_tag = js ''regex_extraction'', error = None\<rparr>
       \<and> validateFeedbackStructure (feedback (parseAIFeedback (pre @ t @ post))) = Inr True"
  using extraction_around [OF assms] assms(2) by simp

lemma prose_example:
  "c_lbrace \<notin> set (js ''Here is the result: '')
   \<and> c_rbrace \<notin> set (js '' Hope it helps.'')
   \<and> stage_direct (js ''Here is the result: '' @ example_text @ js '' Hope it helps.'') = None"
  by code_simp

theorem parseAIFeedback_extraction_in_prose_witness:
  "JSON_parse example_text = Inr example_record
   \<and> validateFeedbackStructure example_record = Inr True
   \<and> object_text example_text
   \<and> c_lbrace \<notin> set (js ''Here is the result: '')
   \<and> c_rbrace \<notin> set (js '' Hope it helps.'')
   \<and> stage_direct (js ''Here is the result: '' @ example_text @ js '' Hope it helps.'') = None
   \<and> parseAIFeedback (js ''Here is the result: '' @ example_text @ js '' Hope it helps.'') =
       \<lparr>success = True, feedback = example_record, method_tag = js ''regex_extraction'',
        error = None\<rparr>"
proof -
  from prose_example have h: "c_lbrace \<notin> set (js ''Here is the result: '')"
    "c_rbrace \<notin> set (js '' Hope it helps.'')"
    "stage_direct (js ''Here is the result: '' @ example_text @ js '' Hope it helps.'') = None"
    by blast+
  from parseAIFeedback_extraction_in_prose
    [OF example_parses example_valid example_object_text(1) h]
    example_parses example_valid example_object_text(1) h
  show ?thesis by blast
qed

text \<open>
  The claim as stated fails when the prose has a brace of its own: the pattern runs to
  the last closing brace, the span is no JSON, the repair leaves it so, and the result is
  the fallback.
\<close>

theorem parseAIFeedback_prose_with_brace_counterexample:
  "JSON_parse bare_text = Inr bare_record
   \<and> validateFeedbackStructure bare_record = Inr True
   \<and> parseAIFeedback (js ''Result: '' @ bare_text @ js '' (see {notes})'') = fallback_result
   \<and> success fallback_result = False"
proof -
  have "parseAIFeedback (js ''Result: '' @ bare_text @ js '' (see {notes})'') = fallback_result"
    by code_simp
  moreover have "success fallback_result = False"
    by (simp add: fallback_result_def)
  ultimately show ?thesis
    using bare_parses bare_valid by blast
qed

text \<open>
  Claim C10. The validator puts no bound on a score: a record validates whatever
  numbers its six scores are, negative, fractional, above 100 or not finite, and the text
  of a record with such scores is returned with success.
\<close>

theorem validateFeedbackStructure_scores_unbounded:
  "validateFeedbackStructure
     (record_of n (section_of a []) (section_of b []) (section_of c []) (section_of d [])
        (section_of e [])) = Inr True
   \<and> validateFeedbackStructure odd_scores_record = Inr True
   \<and> field odd_scores_record (js ''overallScore'') = JNum (Finite (- 7 / 2))
   \<and> field (field odd_scores_record (js ''ATS'')) (js ''score'') = JNum (Finite 1000)
   \<and> field (field odd_scores_record (js ''toneAndStyle'')) (js ''score'') = JNum (Finite (1 / 4))
   \<and> parseAIFeedback odd_scores_text =
       \<lparr>success = True, feedback = odd_scores_record, method_tag = js ''direct'', error = None\<rparr>"
proof -
  have valid: "validateFeedbackStructure odd_scores_record = Inr True"
    unfolding odd_scores_record_def by (rule sections_valid_any_score)
  have "parseAIFeedback odd_scores_text =
       \<lparr>success = True, feedback = odd_scores_record, method_tag = js ''direct'', error = None\<rparr>"
    using odd_scores_parses valid example_object_text(3) by (rule direct_on_object_text)
  moreover have "field odd_scores_record (js ''overallScore'') = JNum (Finite (- 7 / 2))"
    "field (field odd_scores_record (js ''ATS'')) (js ''score'') = JNum (Finite 1000)"
    "field (field odd_scores_record (js ''toneAndStyle'')) (js ''score'') = JNum (Finite (1 / 4))"
    by (simp_all add: odd_scores_record_def record_of_def section_of_def field_def js_key_neq
        js_ATS_neq)
  ultimately show ?thesis
    using valid sections_valid_any_score by blast
qed

theorem validateFeedbackStructure_scores_unbounded_witness:
  "validateFeedbackStructure
     (record_of NaN (section_of (Finite (- 1)) []) (section_of PosInfinity [])
        (section_of (Finite (1 / 3)) []) (section_of (Finite 100000) []) (section_of NegInfinity []))
     = Inr True"
  using validateFeedbackStructure_scores_unbounded
    [of NaN "Finite (- 1)" PosInfinity "Finite (1 / 3)" "Finite 100000" NegInfinity]
  by blast

section \<open>The review session controller (the resume route, loadResume)\<close>

text \<open>
  The stores the controller reads. In puter.ts both \<open>kv.get\<close> and \<open>fs.read\<close> go through
  \<open>safeApiCall\<close>, which catches every error and returns \<open>undefined\<close>: a read gives a
  value or nothing, and does not throw. \<open>'b\<close> is the type of blobs; \<open>createObjectURL\<close> and
  \<open>pdfBlob\<close> (\<open>new Blob([b], {type: 'application/pdf'})\<close>) are functions of the browser, and
  \<open>messageOf\<close> is the message the engine gives a thrown error.
\<close>

record 'b stores =
  kv_get :: "jsstring \<Rightarrow> jsstring option"
  fs_read :: "jsval \<Rightarrow> 'b option"
  createObjectURL :: "'b \<Rightarrow> jsstring"
  pdfBlob :: "'b \<Rightarrow> 'b"
  messageOf :: "js_error \<Rightarrow> jsstring"

text \<open>The state of the component, and the reads of the stores in the order they are made.\<close>

record session =
  imageUrl :: jsstring
  resumeUrl :: jsstring
  feedback_st :: "jsval option"
  loading :: bool
  error_st :: "jsstring option"

datatype store_read = KvGet jsstring | FsRead jsval

text \<open>\<open>setError(reason); setLoading(false); return\<close>, and the handler of the outer \<open>catch\<close>.\<close>

definition fail_with :: "jsstring \<Rightarrow> session \<Rightarrow> session" where
  "fail_with reason s = s\<lparr>loading := False, error_st := Some reason\<rparr>"

definition caught :: "'b stores \<Rightarrow> js_error \<Rightarrow> session \<Rightarrow> session" where
  "caught env e s = s\<lparr>loading := False,
     error_st := Some (js ''Failed to load resume: '' @ messageOf env e)\<rparr>"

text \<open>
  \<open>loadResume\<close> for the identifier \<open>ident\<close>, from the state \<open>s0\<close> of the component: the state
  it ends in and the reads it made. Every property read may throw, and the outer \<open>catch\<close>
  takes what is thrown.
\<close>

definition loadResume :: "'b stores \<Rightarrow> jsstring \<Rightarrow> session \<Rightarrow> session \<times> store_read list" where
  "loadResume env ident s0 =
     (let s1 = s0\<lparr>loading := True, error_st := None\<rparr>;
          key = js ''resume:'' @ ident
      in case kv_get env key of
           None \<Rightarrow> (fail_with (js ''Resume not found'') s1, [KvGet key])
         | Some resume \<Rightarrow>
             if resume = [] then (fail_with (js ''Resume not found'') s1, [KvGet key])
             else
               (case JSON_parse resume of
                  Inl parseError \<Rightarrow> (fail_with (js ''Invalid resume data'') s1, [KvGet key])
                | Inr data \<Rightarrow>
                    (case get_prop data (js ''resumePath'') of
                       Inl e \<Rightarrow> (caught env e s1, [KvGet key])
                     | Inr resumePath \<Rightarrow>
                         if \<not> truthy resumePath
                         then (fail_with (js ''Resume files missing'') s1, [KvGet key])
                         else
                           (case get_prop data (js ''imagePath'') of
                              Inl e \<Rightarrow> (caught env e s1, [KvGet key])
                            | Inr imagePath \<Rightarrow>
                                if \<not> truthy imagePath
                                then (fail_with (js ''Resume files missing'') s1, [KvGet key])
                                else
                                  (case fs_read env resumePath of
                                     None \<Rightarrow>
                                       (fail_with (js ''Failed to load resume file'') s1,
                                        [KvGet key, FsRead resumePath])
                                   | Some resumeBlob \<Rightarrow>
                                       (let s2 = s1\<lparr>resumeUrl :=
                                              createObjectURL env (pdfBlob env resumeBlob)\<rparr>
                                        in case fs_read env imagePath of
                                             None \<Rightarrow>
                                               (fail_with (js ''Failed to load resume image'') s2,
                                                [KvGet key, FsRead resumePath, FsRead imagePath])
                                           | Some imageBlob \<Rightarrow>
                                               (let s3 = s2\<lparr>imageUrl := createObjectURL env imageBlob\<rparr>
                                                in case get_prop data (js ''feedback'') of
                                                     Inl e \<Rightarrow>
                                                       (caught env e s3,
                                                        [KvGet key, FsRead resumePath, FsRead imagePath])
                                                   | Inr fb \<Rightarrow>
                                                       ((if truthy fb then s3\<lparr>feedback_st := Some fb\<rparr>
                                                         else s3)\<lparr>loading := False\<rparr>,
                                                        [KvGet key, FsRead resumePath,
                                                         FsRead imagePath]))))))))"

text \<open>The three states of the specification, read off the state of the component.\<close>

datatype phase = Loading | Error | Ready

definition phase_of :: "session \<Rightarrow> phase" where
  "phase_of s = (if loading s then Loading else if error_st s \<noteq> None then Error else Ready)"

text \<open>
  The five failure cases, in the specification's words: no record is found; the stored
  record does not deserialize; the record lacks one of the two paths; the document blob
  cannot be read; the image blob cannot be read. An entry that is the empty string does
  not deserialize; the source reports it as not found.
\<close>

definition stored :: "'b stores \<Rightarrow> jsstring \<Rightarrow> jsstring option" where
  "stored env ident = kv_get env (js ''resume:'' @ ident)"

definition no_record :: "'b stores \<Rightarrow> jsstring \<Rightarrow> bool" where
  "no_record env ident = (stored env ident = None)"

definition stored_data :: "'b stores \<Rightarrow> jsstring \<Rightarrow> jsval option" where
  "stored_data env ident =
     (case stored env ident of
        None \<Rightarrow> None
      | Some text \<Rightarrow> (case JSON_parse text of Inl e \<Rightarrow> None | Inr data \<Rightarrow> Some data))"

definition not_deserializable :: "'b stores \<Rightarrow> jsstring \<Rightarrow> bool" where
  "not_deserializable env ident = (stored env ident \<noteq> None \<and> stored_data env ident = None)"

definition has_path :: "jsval \<Rightarrow> jsstring \<Rightarrow> bool" where
  "has_path data name = truthy (field data name)"

definition has_paths :: "'b stores \<Rightarrow> jsstring \<Rightarrow> bool" where
  "has_paths env ident =
     (case stored_data env ident of
        None \<Rightarrow> False
      | Some data \<Rightarrow> has_path data (js ''resumePath'') \<and> has_path data (js ''imagePath''))"

definition lacks_path :: "'b stores \<Rightarrow> jsstring \<Rightarrow> bool" where
  "lacks_path env ident = (stored_data env ident \<noteq> None \<and> \<not> has_paths env ident)"

definition path_of :: "'b stores \<Rightarrow> jsstring \<Rightarrow> jsstring \<Rightarrow> jsval" where
  "path_of env ident name = (case stored_data env ident of None \<Rightarrow> JUndefined | Some data \<Rightarrow> field data name)"

definition document_unreadable :: "'b stores \<Rightarrow> jsstring \<Rightarrow> bool" where
  "document_unreadable env ident =
     (has_paths env ident \<and> fs_read env (path_of env ident (js ''resumePath'')) = None)"

definition image_unreadable :: "'b stores \<Rightarrow> jsstring \<Rightarrow> bool" where
  "image_unreadable env ident =
     (has_paths env ident \<and> fs_read env (path_of env ident (js ''resumePath'')) \<noteq> None
      \<and> fs_read env (path_of env ident (js ''imagePath'')) = None)"

definition is_fs_read :: "store_read \<Rightarrow> bool" where
  "is_fs_read r = (case r of FsRead p \<Rightarrow> True | KvGet k \<Rightarrow> False)"

lemma JSON_parse_empty: "JSON_parse [] = Inl SyntaxError"
  by (simp add: JSON_parse_def)

lemma loadResume_not_found:
  assumes "no_record env ident"
  shows "loadResume env ident s0 =
         (s0\<lparr>loading := False, error_st := Some (js ''Resume not found'')\<rparr>,
          [KvGet (js ''resume:'' @ ident)])"
  using assms by (simp add: loadResume_def no_record_def stored_def fail_with_def Let_def)

lemma loadResume_never_loading: "loading (fst (loadResume env ident s0)) = False"
  by (simp add: loadResume_def fail_with_def caught_def Let_def
      split: option.splits sum.splits)

lemma loadResume_error_iff:
  "(error_st (fst (loadResume env ident s0)) \<noteq> None) =
   (no_record env ident \<or> not_deserializable env ident \<or> lacks_path env ident
    \<or> document_unreadable env ident \<or> image_unreadable env ident)"
proof (cases "stored env ident")
  case None
  then show ?thesis
    by (simp add: loadResume_def no_record_def stored_def fail_with_def Let_def)
next
  case (Some raw)
  note raw = this
  show ?thesis
  proof (cases "JSON_parse raw")
    case (Inl e)
    with raw show ?thesis
      by (auto simp: loadResume_def no_record_def not_deserializable_def stored_data_def
          stored_def fail_with_def Let_def)
  next
    case (Inr data)
    with raw have ne: "raw \<noteq> []"
      using JSON_parse_empty by auto
    have sd: "stored_data env ident = Some data"
      using raw Inr by (simp add: stored_data_def)
    have nn: "\<not> no_record env ident" "\<not> not_deserializable env ident"
      using raw sd by (simp_all add: no_record_def not_deserializable_def)
    show ?thesis
      using raw Inr ne sd nn
      by (cases data)
        (auto simp: loadResume_def stored_def fail_with_def caught_def Let_def lacks_path_def
          has_paths_def has_path_def document_unreadable_def image_unreadable_def path_of_def
          field_def split: option.splits if_splits)
  qed
qed

definition initial_session :: session where
  "initial_session =
     \<lparr>imageUrl = [], resumeUrl = [], feedback_st = None, loading = True, error_st = None\<rparr>"

text \<open>
  Claim C8. When the key-value store has no entry for the identifier, the load ends in
  the error state with the reason \<open>Resume not found\<close>, and its only read is the one of
  the key-value store: no blob is read. The load ends in the error state in exactly the
  five failure cases, and in the ready state otherwise; it never stays loading.
\<close>

theorem loadResume_error_cases:
  "(no_record env ident \<longrightarrow>
      loadResume env ident s0 =
        (s0\<lparr>loading := False, error_st := Some (js ''Resume not found'')\<rparr>,
         [KvGet (js ''resume:'' @ ident)])
      \<and> phase_of (fst (loadResume env ident s0)) = Error
      \<and> \<not> list_ex is_fs_read (snd (loadResume env ident s0)))
   \<and> ((phase_of (fst (loadResume env ident s0)) = Error) =
        (no_record env ident \<or> not_deserializable env ident \<or> lacks_path env ident
         \<or> document_unreadable env ident \<or> image_unreadable env ident))
   \<and> ((phase_of (fst (loadResume env ident s0)) = Ready) =
        (\<not> (no_record env ident \<or> not_deserializable env ident \<or> lacks_path env ident
         \<or> document_unreadable env ident \<or> image_unreadable env ident)))
   \<and> phase_of (fst (loadResume env ident s0)) \<noteq> Loading"
proof -
  have err: "(phase_of (fst (loadResume env ident s0)) = Error) =
      (error_st (fst (loadResume env ident s0)) \<noteq> None)"
    and ready: "(phase_of (fst (loadResume env ident s0)) = Ready) =
      (error_st (fst (loadResume env ident s0)) = None)"
    and nl: "phase_of (fst (loadResume env ident s0)) \<noteq> Loading"
    using loadResume_never_loading [of env ident s0] by (simp_all add: phase_of_def)
  have nf: "no_record env ident \<longrightarrow>
      loadResume env ident s0 =
        (s0\<lparr>loading := False, error_st := Some (js ''Resume not found'')\<rparr>,
         [KvGet (js ''resume:'' @ ident)])
      \<and> phase_of (fst (loadResume env ident s0)) = Error
      \<and> \<not> list_ex is_fs_read (snd (loadResume env ident s0))"
    by (simp add: loadResume_not_found phase_of_def is_fs_read_def)
  have e1: "(phase_of (fst (loadResume env ident s0)) = Error) =
      (no_record env ident \<or> not_deserializable env ident \<or> lacks_path env ident
       \<or> document_unreadable env ident \<or> image_unreadable env ident)"
    unfolding err by (rule loadResume_error_iff)
  have e2: "(phase_of (fst (loadResume env ident s0)) = Ready) =
      (\<not> (no_record env ident \<or> not_deserializable env ident \<or> lacks_path env ident
       \<or> document_unreadable env ident \<or> image_unreadable env ident))"
    unfolding ready using loadResume_error_iff [of env ident s0] by auto
  show ?thesis
    by (intro conjI) (rule nf, rule e1, rule e2, rule nl)
qed

text \<open>A store with one record, whose two blobs can be read, asked for another record and for this one.\<close>

definition example_stores :: "jsval stores" where
  \<open>example_stores =
     \<lparr>kv_get = (\<lambda>k. if k = js ''resume:42''
                     then Some (js ''{"resumePath":"/r.pdf","imagePath":"/r.png"}'') else None),
      fs_read = (\<lambda>p. Some p),
      createObjectURL = (\<lambda>b. js ''blob:1''),
      pdfBlob = (\<lambda>b. b),
      messageOf = (\<lambda>e. js ''TypeError'')\<rparr>\<close>

lemma example_stores_cases:
  "no_record example_stores (js ''7'')
   \<and> \<not> (no_record example_stores (js ''42'') \<or> not_deserializable example_stores (js ''42'')
        \<or> lacks_path example_stores (js ''42'') \<or> document_unreadable example_stores (js ''42'')
        \<or> image_unreadable example_stores (js ''42''))"
  by code_simp

theorem loadResume_error_cases_witness:
  "no_record example_stores (js ''7'')
   \<and> loadResume example_stores (js ''7'') initial_session =
        (initial_session\<lparr>loading := False, error_st := Some (js ''Resume not found'')\<rparr>,
         [KvGet (js ''resume:'' @ js ''7'')])
   \<and> phase_of (fst (loadResume example_stores (js ''7'') initial_session)) = Error
   \<and> \<not> list_ex is_fs_read (snd (loadResume example_stores (js ''7'') initial_session))
   \<and> phase_of (fst (loadResume example_stores (js ''42'') initial_session)) = Ready"
  using loadResume_error_cases [of example_stores "js ''7''" initial_session]
    loadResume_error_cases [of example_stores "js ''42''" initial_session]
    example_stores_cases
  by blast

section \<open>The rasterizer (pdf2img, convertPdfToImage)\<close>

abbreviation c_d :: jschar where "c_d \<equiv> 100"
abbreviation c_D :: jschar where "c_D \<equiv> 68"
abbreviation c_F :: jschar where "c_F \<equiv> 70"
abbreviation c_p :: jschar where "c_p \<equiv> 112"
abbreviation c_P :: jschar where "c_P \<equiv> 80"

text \<open>\<open>s.includes(p)\<close> and \<open>s.endsWith(p)\<close>.\<close>

fun includes_str :: "jsstring \<Rightarrow> jsstring \<Rightarrow> bool" where
  "includes_str [] p = (p = [])"
| "includes_str (c # cs) p = (startsWith (c # cs) p \<or> includes_str cs p)"

definition endsWith :: "jsstring \<Rightarrow> jsstring \<Rightarrow> bool" where
  "endsWith s p = startsWith (rev s) (rev p)"

text \<open>
  \<open>toLowerCase\<close> on the letters A to Z. The other letters of Unicode are left as they
  are: none of them becomes one of the four code units of \<open>.pdf\<close>, the only use the source
  makes of the result.
\<close>

definition toLowerCase :: "jsstring \<Rightarrow> jsstring" where
  "toLowerCase s = map (\<lambda>c. if 65 \<le> c \<and> c \<le> 90 then c + 32 else c) s"

definition rx_pdf_ext :: rx where
  \<comment> \<open>\<^verbatim>\<open>/\.pdf$/i\<close>\<close>
  "rx_pdf_ext =
     seqs [Atom (COne c_dot), Atom (CSet [c_p, c_P]), Atom (CSet [c_d, c_D]),
           Atom (CSet [c_f, c_F]), Eol]"

text \<open>A \<open>File\<close>: its type, its name and its contents.\<close>

record 'v js_file =
  file_type :: jsstring
  file_name :: jsstring
  contents :: 'v

record 'v conversion =
  imageUrl_r :: jsstring
  file_r :: "'v js_file option"
  error_r :: "jsstring option"

text \<open>
  What becomes of a promise: it resolves to a value, it rejects with what was thrown
  (its message is kept), or it stays pending for ever.
\<close>

datatype 'a settled = Resolved 'a | Rejected jsstring | Pending

text \<open>
  The browser and the PDF library, as far as the function uses them; \<open>'v\<close> is the type of
  their objects. Every operation may throw, and then gives on the left the message of
  what it throws (\<open>err.message\<close>, or \<open>String(err)\<close>). \<open>isBrowser\<close> says that \<open>window\<close> and
  \<open>document\<close> are defined; \<open>importPdfJs\<close> is the dynamic import of the library;
  \<open>getContext\<close> is the 2D context of a new canvas, or \<open>null\<close>; \<open>toBlob\<close> is the call
  \<open>canvas.toBlob\<close> on the canvas of a rendered page: it throws, or it gives its callback
  the encoded blob, or \<open>null\<close> when the encoding fails; \<open>newFile\<close> is \<open>new File([blob], name,
  {type})\<close> and \<open>objectURL\<close> is \<open>URL.createObjectURL\<close>.
\<close>

record 'v browser =
  isBrowser :: bool
  importPdfJs :: "jsstring + 'v"
  arrayBuffer :: "'v js_file \<Rightarrow> jsstring + 'v"
  getDocument :: "'v \<Rightarrow> 'v \<Rightarrow> jsstring + 'v"
  getPage :: "'v \<Rightarrow> jsstring + 'v"
  getViewport :: "'v \<Rightarrow> jsstring + 'v"
  getContext :: "'v option"
  render :: "'v \<Rightarrow> 'v \<Rightarrow> 'v \<Rightarrow> jsstring + unit"
  toBlob :: "'v \<Rightarrow> jsstring + 'v option"
  newFile :: "'v \<Rightarrow> jsstring \<Rightarrow> jsstring \<Rightarrow> jsstring + 'v js_file"
  objectURL :: "'v \<Rightarrow> jsstring + jsstring"

text \<open>
  \<open>loadPdfJs\<close>, with the module variable \<open>pdfjsLib\<close> as state: the library is imported
  once and kept.
\<close>

definition loadPdfJs :: "'v browser \<Rightarrow> 'v option \<Rightarrow> (jsstring + 'v) \<times> 'v option" where
  "loadPdfJs env pdfjsLib =
     (case pdfjsLib of
        Some lib \<Rightarrow> (Inr lib, pdfjsLib)
      | None \<Rightarrow>
          (case importPdfJs env of
             Inl msg \<Rightarrow> (Inl (js ''PDF.js loading failed: '' @ msg), None)
           | Inr lib \<Rightarrow> (Inr lib, Some lib)))"

definition failed :: "jsstring \<Rightarrow> 'v conversion" where
  "failed msg = \<lparr>imageUrl_r = [], file_r = None, error_r = Some msg\<rparr>"

definition is_pdf :: "'v js_file \<Rightarrow> bool" where
  "is_pdf f = (includes_str (file_type f) (js ''pdf'') \<or> endsWith (toLowerCase (file_name f)) (js ''.pdf''))"

text \<open>
  The awaited steps of the \<open>try\<close> block after the library load, up to the rendering:
  the page that was rendered, or on the left the message of what was thrown.
\<close>

definition render_page :: "'v browser \<Rightarrow> 'v \<Rightarrow> 'v js_file \<Rightarrow> jsstring + 'v" where
  "render_page env lib f =
     (case arrayBuffer env f of
        Inl e \<Rightarrow> Inl e
      | Inr buffer \<Rightarrow>
          (case getDocument env lib buffer of
             Inl e \<Rightarrow> Inl e
           | Inr pdf \<Rightarrow>
               (case getPage env pdf of
                  Inl e \<Rightarrow> Inl e
                | Inr page \<Rightarrow>
                    (case getViewport env page of
                       Inl e \<Rightarrow> Inl e
                     | Inr viewport \<Rightarrow>
                         (case getContext env of
                            None \<Rightarrow> Inl (js ''Failed to obtain 2D canvas context.'')
                          | Some context \<Rightarrow>
                              (case render env page context viewport of
                                 Inl e \<Rightarrow> Inl e
                               | Inr u \<Rightarrow> Inr page))))))"

text \<open>
  The promise that the \<open>try\<close> block returns, \<open>new Promise((resolve) => canvas.toBlob(...))\<close>.
  It is returned without \<open>await\<close>, so the \<open>catch\<close> of the function does not see how it
  settles: when \<open>canvas.toBlob\<close> throws, the executor throws and the promise rejects;
  when the callback throws before it calls \<open>resolve\<close>, the promise stays pending.
\<close>

definition toBlob_promise :: "'v browser \<Rightarrow> 'v js_file \<Rightarrow> 'v \<Rightarrow> 'v conversion settled" where
  "toBlob_promise env f page =
     (case toBlob env page of
        Inl e \<Rightarrow> Rejected e
      | Inr None \<Rightarrow> Resolved (failed (js ''Failed to create image blob''))
      | Inr (Some blob) \<Rightarrow>
          (case newFile env blob (replace_first rx_pdf_ext [] (file_name f) @ js ''.png'')
                  (js ''image/png'') of
             Inl e \<Rightarrow> Pending
           | Inr imageFile \<Rightarrow>
               (case objectURL env blob of
                  Inl e \<Rightarrow> Pending
                | Inr url \<Rightarrow>
                    Resolved \<lparr>imageUrl_r = url, file_r = Some imageFile, error_r = None\<rparr>)))"

text \<open>
  \<open>convertPdfToImage\<close>: what becomes of the promise it returns, and the new value of
  \<open>pdfjsLib\<close>. The file is \<open>None\<close> when the caller gives none.
\<close>

definition convertPdfToImage ::
  "'v browser \<Rightarrow> 'v option \<Rightarrow> 'v js_file option \<Rightarrow> 'v conversion settled \<times> 'v option" where
  "convertPdfToImage env pdfjsLib file =
     (case file of
        None \<Rightarrow> (Resolved (failed (js ''No file provided'')), pdfjsLib)
      | Some f \<Rightarrow>
          if \<not> includes_str (file_type f) (js ''pdf'')
             \<and> \<not> endsWith (toLowerCase (file_name f)) (js ''.pdf'')
          then (Resolved (failed (js ''File must be a PDF'')), pdfjsLib)
          else if \<not> isBrowser env
          then (Resolved (failed (js ''PDF conversion is only available in the browser.'')),
                pdfjsLib)
          else
            (case loadPdfJs env pdfjsLib of
               (Inl err, g) \<Rightarrow> (Resolved (failed (js ''Failed to convert PDF: '' @ err)), g)
             | (Inr lib, g) \<Rightarrow>
                 (case render_page env lib f of
                    Inl err \<Rightarrow> (Resolved (failed (js ''Failed to convert PDF: '' @ err)), g)
                  | Inr page \<Rightarrow> (toBlob_promise env f page, g))))"

text \<open>
  What the function gets right: the three checks of the input, and every failure of
  an awaited step, give an error result, and every result with an error has an empty
  image URL and no file.
\<close>

lemma convertPdfToImage_no_file:
  "fst (convertPdfToImage env g None) = Resolved (failed (js ''No file provided''))"
  by (simp add: convertPdfToImage_def)

lemma convertPdfToImage_not_pdf:
  "\<not> is_pdf f \<Longrightarrow>
   fst (convertPdfToImage env g (Some f)) = Resolved (failed (js ''File must be a PDF''))"
  by (simp add: convertPdfToImage_def is_pdf_def)

lemma convertPdfToImage_not_browser:
  "is_pdf f \<Longrightarrow> \<not> isBrowser env \<Longrightarrow>
   fst (convertPdfToImage env g (Some f)) =
     Resolved (failed (js ''PDF conversion is only available in the browser.''))"
  by (auto simp: convertPdfToImage_def is_pdf_def)

lemma convertPdfToImage_load_failure:
  "is_pdf f \<Longrightarrow> isBrowser env \<Longrightarrow> importPdfJs env = Inl msg \<Longrightarrow>
   fst (convertPdfToImage env None (Some f)) =
     Resolved (failed (js ''Failed to convert PDF: '' @ js ''PDF.js loading failed: '' @ msg))"
  by (auto simp: convertPdfToImage_def is_pdf_def loadPdfJs_def)

lemma convertPdfToImage_step_failure:
  "is_pdf f \<Longrightarrow> isBrowser env \<Longrightarrow> loadPdfJs env g = (Inr lib, g') \<Longrightarrow>
   render_page env lib f = Inl msg \<Longrightarrow>
   fst (convertPdfToImage env g (Some f)) = Resolved (failed (js ''Failed to convert PDF: '' @ msg))"
  by (auto simp: convertPdfToImage_def is_pdf_def)

lemma convertPdfToImage_null_blob:
  "is_pdf f \<Longrightarrow> isBrowser env \<Longrightarrow> loadPdfJs env g = (Inr lib, g') \<Longrightarrow>
   render_page env lib f = Inr page \<Longrightarrow> toBlob env page = Inr None \<Longrightarrow>
   fst (convertPdfToImage env g (Some f)) = Resolved (failed (js ''Failed to create image blob''))"
  by (auto simp: convertPdfToImage_def is_pdf_def toBlob_promise_def)

lemma convertPdfToImage_error_shape:
  assumes "fst (convertPdfToImage env g file) = Resolved r" "error_r r \<noteq> None"
  shows "imageUrl_r r = [] \<and> file_r r = None"
  using assms
  by (auto simp: convertPdfToImage_def toBlob_promise_def failed_def
      split: option.splits sum.splits prod.splits if_splits)

text \<open>It resolves whenever \<open>canvas.toBlob\<close> and the calls of its callback do not throw.\<close>

lemma convertPdfToImage_resolves:
  assumes "\<forall>page. \<exists>b. toBlob env page = Inr b"
    and "\<forall>blob name type. \<exists>imageFile. newFile env blob name type = Inr imageFile"
    and "\<forall>blob. \<exists>url. objectURL env blob = Inr url"
  shows "\<exists>r. fst (convertPdfToImage env g file) = Resolved r"
proof -
  have "\<exists>r. toBlob_promise env f page = Resolved r" for f page
  proof -
    obtain b where b: "toBlob env page = Inr b"
      using assms(1) by blast
    show ?thesis
    proof (cases b)
      case None
      with b show ?thesis
        by (simp add: toBlob_promise_def)
    next
      case (Some blob)
      obtain imageFile where
        "newFile env blob (replace_first rx_pdf_ext [] (file_name f) @ js ''.png'')
           (js ''image/png'') = Inr imageFile"
        using assms(2) by blast
      moreover obtain url where "objectURL env blob = Inr url"
        using assms(3) by blast
      ultimately show ?thesis
        using b Some by (simp add: toBlob_promise_def)
    qed
  qed
  then show ?thesis
    by (auto simp: convertPdfToImage_def split: option.splits sum.splits prod.splits)
qed

text \<open>
  Claim C9. The claim says that \<open>convertPdfToImage\<close> never rejects and that every failure
  of the image encoding comes back as an error result. The code does not do so: for a
  PDF file in a browser, when the library loads and the first page is rendered, and
  \<open>canvas.toBlob\<close> then throws, the promise that \<open>convertPdfToImage\<close> returns rejects with
  what was thrown, and resolves to no result.
\<close>

theorem convertPdfToImage_rejects_when_toBlob_throws:
  assumes "is_pdf f" and "isBrowser env"
    and "loadPdfJs env g = (Inr lib, g')"
    and "arrayBuffer env f = Inr buffer"
    and "getDocument env lib buffer = Inr pdf"
    and "getPage env pdf = Inr page"
    and "getViewport env page = Inr viewport"
    and "getContext env = Some ctx"
    and "render env page ctx viewport = Inr ()"
    and "toBlob env page = Inl msg"
  shows "fst (convertPdfToImage env g (Some f)) = Rejected msg
         \<and> (\<forall>r. fst (convertPdfToImage env g (Some f)) \<noteq> Resolved r)"
proof -
  have "render_page env lib f = Inr page"
    using assms(4-9) by (simp add: render_page_def)
  then have "fst (convertPdfToImage env g (Some f)) = Rejected msg"
    using assms(1-3,10) by (auto simp: convertPdfToImage_def is_pdf_def toBlob_promise_def)
  then show ?thesis
    by simp
qed

text \<open>
  A browser in which every step succeeds, a PNG file and a PDF file; the same browser
  with a \<open>canvas.toBlob\<close> that throws.
\<close>

definition example_browser :: "int browser" where
  "example_browser =
     \<lparr>isBrowser = True,
      importPdfJs = Inr 1,
      arrayBuffer = (\<lambda>f. Inr (contents f)),
      getDocument = (\<lambda>lib buffer. Inr 3),
      getPage = (\<lambda>pdf. Inr 4),
      getViewport = (\<lambda>page. Inr 5),
      getContext = Some 6,
      render = (\<lambda>page ctx viewport. Inr ()),
      toBlob = (\<lambda>page. Inr (Some 7)),
      newFile = (\<lambda>blob name type.
        Inr \<lparr>file_type = type, file_name = name, contents = blob\<rparr>),
      objectURL = (\<lambda>blob. Inr (js ''blob:1''))\<rparr>"

definition throwing_browser :: "int browser" where
  "throwing_browser =
     example_browser\<lparr>toBlob := (\<lambda>page. Inl (js ''canvas.toBlob is not a function''))\<rparr>"

definition example_png :: "int js_file" where
  "example_png = \<lparr>file_type = js ''image/png'', file_name = js ''scan.png'', contents = 2\<rparr>"

definition example_pdf :: "int js_file" where
  "example_pdf = \<lparr>file_type = js ''application/pdf'', file_name = js ''CV.PDF'', contents = 2\<rparr>"

lemma example_files: "\<not> is_pdf example_png" "is_pdf example_pdf"
  by code_simp+

lemma example_conversion:
  "convertPdfToImage example_browser None (Some example_pdf) =
     (Resolved
        \<lparr>imageUrl_r = js ''blob:1'',
         file_r = Some \<lparr>file_type = js ''image/png'', file_name = js ''CV.png'', contents = 7\<rparr>,
         error_r = None\<rparr>,
      Some 1)"
  by code_simp

lemma example_null_blob:
  "fst (convertPdfToImage (example_browser\<lparr>toBlob := (\<lambda>page. Inr None)\<rparr>) None
     (Some example_pdf)) = Resolved (failed (js ''Failed to create image blob''))"
  by code_simp

lemma throwing_browser_steps:
  "isBrowser throwing_browser"
  "loadPdfJs throwing_browser None = (Inr 1, Some 1)"
  "arrayBuffer throwing_browser example_pdf = Inr 2"
  "getDocument throwing_browser 1 2 = Inr 3"
  "getPage throwing_browser 3 = Inr 4"
  "getViewport throwing_browser 4 = Inr 5"
  "getContext throwing_browser = Some 6"
  "render throwing_browser 4 6 5 = Inr ()"
  "toBlob throwing_browser 4 = Inl (js ''canvas.toBlob is not a function'')"
  by (simp_all add: throwing_browser_def example_browser_def example_pdf_def loadPdfJs_def)

theorem convertPdfToImage_rejects_when_toBlob_throws_witness:
  "fst (convertPdfToImage throwing_browser None (Some example_pdf)) =
     Rejected (js ''canvas.toBlob is not a function'')
   \<and> (\<forall>r. fst (convertPdfToImage throwing_browser None (Some example_pdf)) \<noteq> Resolved r)"
  by (rule convertPdfToImage_rejects_when_toBlob_throws
      [OF example_files(2) throwing_browser_steps])

end
